theory Spec2Isabelle
  imports Main "HOL-Library.Multiset" "HOL-Library.Char_ord" "HOL-Library.List_Lexorder"
begin

section \<open>Notes\<close>

text \<open>
  A note as the synchronisation code reads it. \<^verbatim>\<open>note.id\<close> is the key of the merge map and
  of the de-duplication set. \<^verbatim>\<open>note.timestamp\<close> is what the comparators subtract and
  compare: a number, or \<^verbatim>\<open>undefined\<close> (\<open>None\<close>) when the object has no such property.
  Everything else is payload that the synchronisation never inspects: the \<open>content\<close>, and
  \<open>updatedAt\<close>, the ISO time that \<^verbatim>\<open>saveNote\<close> and \<^verbatim>\<open>updateNote\<close> of the application write.
  The application writes \<^verbatim>\<open>id\<close>, \<^verbatim>\<open>content\<close>, \<^verbatim>\<open>tags\<close>, \<^verbatim>\<open>createdAt\<close> and \<^verbatim>\<open>updatedAt\<close>;
  it never writes a \<^verbatim>\<open>timestamp\<close>.
\<close>

record Note =
  note_id :: string
  timestamp :: "int option"
  content :: string
  updatedAt :: string

section \<open>Sharding (sync.js, shardNotes)\<close>

text \<open>
  \<^verbatim>\<open>[...notes].sort((a, b) => b.timestamp - a.timestamp)\<close>. The difference is \<^verbatim>\<open>NaN\<close> when
  a timestamp is \<^verbatim>\<open>undefined\<close>, and \<^verbatim>\<open>sort\<close> reads \<^verbatim>\<open>NaN\<close> as 0: the two notes then
  count as equal. The sort is stable; it is modelled as the insertion sort that puts an
  element before the first one that it need not follow. Where some timestamps are missing
  and others are not, the comparator is not an order and JavaScript leaves the result to
  the implementation; the properties below only use that the result is a rearrangement.
\<close>

definition compareRecency :: "Note \<Rightarrow> Note \<Rightarrow> int" where
  "compareRecency a b =
     (case timestamp b of
        None \<Rightarrow> 0
      | Some tb \<Rightarrow> (case timestamp a of None \<Rightarrow> 0 | Some ta \<Rightarrow> tb - ta))"

fun insertBy :: "('a \<Rightarrow> 'a \<Rightarrow> int) \<Rightarrow> 'a \<Rightarrow> 'a list \<Rightarrow> 'a list" where
  "insertBy cmp x [] = [x]"
| "insertBy cmp x (y # ys) = (if cmp x y \<le> 0 then x # y # ys else y # insertBy cmp x ys)"

definition sortBy :: "('a \<Rightarrow> 'a \<Rightarrow> int) \<Rightarrow> 'a list \<Rightarrow> 'a list" where
  "sortBy cmp xs = foldr (insertBy cmp) xs []"

definition sortByRecency :: "Note list \<Rightarrow> Note list" where
  "sortByRecency notes = sortBy compareRecency notes"

definition MAX_SHARD_SIZE :: nat where
  "MAX_SHARD_SIZE = 800 * 1024"

text \<open>
  The \<^verbatim>\<open>for (const note of sortedNotes)\<close> loop of \<^verbatim>\<open>shardNotes\<close>. The loop state is
  \<open>(shards, currentShard, currentSize)\<close>. The serialised size of a note
  (\<^verbatim>\<open>new Blob([JSON.stringify(note)]).size\<close>) is the parameter \<open>noteSize\<close>, the estimated
  size of the enclosing structure is \<open>baseSize\<close>; both are byte counts, hence naturals.
\<close>

fun shardLoop ::
  "(Note \<Rightarrow> nat) \<Rightarrow> nat \<Rightarrow> Note list \<Rightarrow> Note list list \<Rightarrow> Note list \<Rightarrow> nat
    \<Rightarrow> Note list list \<times> Note list \<times> nat" where
  "shardLoop noteSize baseSize [] shards currentShard currentSize =
     (shards, currentShard, currentSize)"
| "shardLoop noteSize baseSize (n # rest) shards currentShard currentSize =
     (if currentSize + noteSize n + baseSize > MAX_SHARD_SIZE \<and> length currentShard > 0
      then shardLoop noteSize baseSize rest (shards @ [currentShard]) [n] (noteSize n)
      else shardLoop noteSize baseSize rest shards (currentShard @ [n])
             (currentSize + noteSize n))"

definition shardNotes :: "(Note \<Rightarrow> nat) \<Rightarrow> nat \<Rightarrow> Note list \<Rightarrow> Note list list" where
  "shardNotes noteSize baseSize notes =
     (case shardLoop noteSize baseSize (sortByRecency notes) [] [] 0 of
        (shards, currentShard, currentSize) \<Rightarrow>
          let shards' = (if length currentShard > 0 then shards @ [currentShard] else shards)
          in if length shards' > 0 then shards' else [[]])"

section \<open>Note reconciliation (sync.js, mergeNotes)\<close>

text \<open>
  The JavaScript \<^verbatim>\<open>Map\<close> keeps its entries in insertion order, and \<^verbatim>\<open>set\<close> on a key that
  is present replaces the value where it stands: an association list.
\<close>

type_synonym notesMap = "(string \<times> Note) list"

fun mapSet :: "string \<Rightarrow> Note \<Rightarrow> notesMap \<Rightarrow> notesMap" where
  "mapSet k v [] = [(k, v)]"
| "mapSet k v (p # ps) = (if fst p = k then (k, v) # ps else p # mapSet k v ps)"

definition mapGet :: "notesMap \<Rightarrow> string \<Rightarrow> Note option" where
  "mapGet m k = map_of m k"

text \<open>First loop: \<^verbatim>\<open>notesMap.set(note.id, note)\<close> for every local note.\<close>

definition addLocal :: "Note \<Rightarrow> notesMap \<Rightarrow> notesMap" where
  "addLocal n m = mapSet (note_id n) n m"

text \<open>
  Second loop: \<^verbatim>\<open>if (!existing || note.timestamp > existing.timestamp) notesMap.set(...)\<close>.
  \<^verbatim>\<open>a > b\<close> is false as soon as one side is \<^verbatim>\<open>undefined\<close>.
\<close>

definition laterThan :: "int option \<Rightarrow> int option \<Rightarrow> bool" where
  "laterThan a b =
     (case a of None \<Rightarrow> False | Some x \<Rightarrow> (case b of None \<Rightarrow> False | Some y \<Rightarrow> x > y))"

definition addCloud :: "Note \<Rightarrow> notesMap \<Rightarrow> notesMap" where
  "addCloud n m =
     (case mapGet m (note_id n) of
        None \<Rightarrow> mapSet (note_id n) n m
      | Some existing \<Rightarrow>
          if laterThan (timestamp n) (timestamp existing) then mapSet (note_id n) n m
          else m)"

definition mergeMap :: "Note list \<Rightarrow> Note list \<Rightarrow> notesMap" where
  "mergeMap localNotes cloudNotes = fold addCloud cloudNotes (fold addLocal localNotes [])"

definition mergeNotes :: "Note list \<Rightarrow> Note list \<Rightarrow> Note list" where
  "mergeNotes localNotes cloudNotes = sortByRecency (map snd (mergeMap localNotes cloudNotes))"

section \<open>Snapshots and shards (sync.js, mergeShards, createGist, getGist)\<close>

text \<open>
  The wire data. A field that a parsed JSON object may lack is an \<open>option\<close>; \<open>None\<close> is
  the field being absent (\<^verbatim>\<open>undefined\<close> or \<^verbatim>\<open>null\<close>). An array or an object is truthy in
  JavaScript even when it is empty; a string is truthy unless it is empty.
\<close>

record CustomTag =
  tag_id :: string
  tag_name :: string
  createdAt :: string

type_synonym TagColors = "(string \<times> nat) list"

record Snapshot =
  notes' :: "Note list option"
  customTags :: "CustomTag list option"
  tagColors :: "TagColors option"
  syncTime :: "string option"
  version :: "string option"

record ShardInfo =
  index :: nat
  total :: nat

record ShardData = Snapshot +
  shardInfo :: "ShardInfo option"

text \<open>
  The loop of \<^verbatim>\<open>mergeShards\<close> over \<^verbatim>\<open>shardDataArray\<close>, with the loop state
  \<open>(allNotes, customTags, tagColors, latestSyncTime)\<close>. Sync times are ISO strings and
  \<^verbatim>\<open>>\<close> on strings is the lexicographic order.
\<close>

type_synonym mergeState = "Note list \<times> CustomTag list \<times> TagColors \<times> string option"

definition nextSyncTime :: "string option \<Rightarrow> string option \<Rightarrow> string option" where
  "nextSyncTime shardSyncTime latestSyncTime =
     (case shardSyncTime of
        None \<Rightarrow> latestSyncTime
      | Some t \<Rightarrow>
          if t = [] then latestSyncTime
          else (case latestSyncTime of
                  None \<Rightarrow> Some t
                | Some l \<Rightarrow> if l = [] \<or> t > l then Some t else Some l))"

fun mergeShardStep :: "ShardData \<Rightarrow> mergeState \<Rightarrow> mergeState" where
  "mergeShardStep shardData (allNotes, tags, colors, latestSyncTime) =
     ((case notes' shardData of None \<Rightarrow> allNotes | Some ns \<Rightarrow> allNotes @ ns),
      (case customTags shardData of None \<Rightarrow> tags | Some t \<Rightarrow> t),
      (case tagColors shardData of None \<Rightarrow> colors | Some c \<Rightarrow> c),
      nextSyncTime (syncTime shardData) latestSyncTime)"

text \<open>The de-duplication loop: the first note of every id is kept.\<close>

fun dedupeLoop :: "Note list \<Rightarrow> Note list \<Rightarrow> string set \<Rightarrow> Note list" where
  "dedupeLoop [] uniqueNotes seenIds = uniqueNotes"
| "dedupeLoop (n # rest) uniqueNotes seenIds =
     (if note_id n \<notin> seenIds
      then dedupeLoop rest (uniqueNotes @ [n]) (insert (note_id n) seenIds)
      else dedupeLoop rest uniqueNotes seenIds)"

definition mergeShards :: "ShardData list \<Rightarrow> Snapshot" where
  "mergeShards shardDataArray =
     (case fold mergeShardStep shardDataArray ([], [], [], None) of
        (allNotes, tags, colors, latestSyncTime) \<Rightarrow>
          \<lparr>notes' = Some (dedupeLoop allNotes [] {}),
           customTags = Some tags,
           tagColors = Some colors,
           syncTime = latestSyncTime,
           version = Some ''1.0''\<rparr>)"

text \<open>\<^verbatim>\<open>v || d\<close> for a value that is an array or an object when it is present.\<close>

definition orElse :: "'a option \<Rightarrow> 'a \<Rightarrow> 'a" where
  "orElse v d = (case v of None \<Rightarrow> d | Some x \<Rightarrow> x)"

text \<open>\<^verbatim>\<open>s || d\<close> for a string: the empty string is falsy too.\<close>

definition orElseString :: "string option \<Rightarrow> string \<Rightarrow> string" where
  "orElseString v d = (case v of None \<Rightarrow> d | Some s \<Rightarrow> if s = [] then d else s)"

text \<open>
  The loop of \<^verbatim>\<open>createGist\<close> and \<^verbatim>\<open>updateGist\<close> that wraps shard \<open>i\<close> into the object
  written to the file \<^verbatim>\<open>insight-shard-i.json\<close>; \<open>now\<close> is \<^verbatim>\<open>new Date().toISOString()\<close>.
\<close>

definition buildShardData :: "Snapshot \<Rightarrow> string \<Rightarrow> Note list list \<Rightarrow> ShardData list" where
  "buildShardData data now shards =
     map (\<lambda>i.
       \<lparr>notes' = Some (shards ! i),
        customTags = Some (orElse (customTags data) []),
        tagColors = Some (orElse (tagColors data) []),
        syncTime = Some (orElseString (syncTime data) now),
        version = Some (orElseString (version data) ''1.0''),
        shardInfo = Some \<lparr>index = i, total = length shards\<rparr>\<rparr>)
       [0..<length shards]"

text \<open>
  The end of \<^verbatim>\<open>getGist\<close>: every parsed shard file becomes
  \<^verbatim>\<open>{index: shardData.shardInfo?.index || 0, data: shardData}\<close>, the files are sorted by
  index (a stable sort) and their data is handed to \<^verbatim>\<open>mergeShards\<close>.
\<close>

record ShardFile =
  file_index :: nat
  file_data :: ShardData

definition shardFileOf :: "ShardData \<Rightarrow> ShardFile" where
  "shardFileOf shardData =
     \<lparr>file_index = (case shardInfo shardData of None \<Rightarrow> 0 | Some i \<Rightarrow> index i),
      file_data = shardData\<rparr>"

definition recombineShardFiles :: "ShardData list \<Rightarrow> Snapshot" where
  "recombineShardFiles parsed =
     mergeShards (map file_data (sort_key file_index (map shardFileOf parsed)))"

section \<open>Exceptions, results and the local store\<close>

text \<open>
  Everything the synchronisation code throws is an \<^verbatim>\<open>Error\<close> object (its own
  \<^verbatim>\<open>new Error(...)\<close>, a \<^verbatim>\<open>TypeError\<close> of a failed \<^verbatim>\<open>fetch\<close> or of a property read on
  \<^verbatim>\<open>null\<close>, a \<^verbatim>\<open>SyntaxError\<close> of \<^verbatim>\<open>JSON.parse\<close>, a quota error of \<^verbatim>\<open>localStorage\<close>); the
  model keeps its \<^verbatim>\<open>message\<close>. An operation either returns a value (\<open>Inr\<close>) or throws
  (\<open>Inl\<close>). The message texts of the source are Chinese; the model writes them in English.
\<close>

datatype exn = Error string

record SyncResult =
  success :: bool
  message :: string
  resultSize :: "nat option"
  resultShards :: "nat option"

definition failure :: "string \<Rightarrow> SyncResult" where
  "failure m = \<lparr>success = False, message = m, resultSize = None, resultShards = None\<rparr>"

definition successful :: "string \<Rightarrow> nat option \<Rightarrow> nat option \<Rightarrow> SyncResult" where
  "successful m sz sh = \<lparr>success = True, message = m, resultSize = sz, resultShards = sh\<rparr>"

text \<open>
  The keys of \<^verbatim>\<open>localStorage\<close> that the synchronisation reads and writes. \<^verbatim>\<open>getItem\<close>
  yields \<^verbatim>\<open>null\<close> (\<open>None\<close>) for a key that was never set. The notes, tags and colours are
  kept as the values that \<^verbatim>\<open>StorageManager\<close> parses them to.
\<close>

record Store =
  insight_notes :: "Note list"
  insight_custom_tags :: "CustomTag list"
  insight_tag_colors :: TagColors
  insight_github_token :: "string option"
  insight_gist_id :: "string option"
  insight_last_sync :: "string option"
  insight_webdav_server :: "string option"
  insight_webdav_username :: "string option"
  insight_webdav_password :: "string option"
  insight_webdav_last_sync :: "string option"

text \<open>A string read from the store is truthy when it is there and not empty.\<close>

definition truthy :: "string option \<Rightarrow> bool" where
  "truthy v = (case v of None \<Rightarrow> False | Some s \<Rightarrow> s \<noteq> [])"

text \<open>
  A response as the code reads it: \<^verbatim>\<open>fetch\<close> rejects (a network failure), or resolves with
  a status and a body; \<^verbatim>\<open>response.ok\<close> is a status from 200 to 299. \<^verbatim>\<open>JSON.parse\<close> and
  \<^verbatim>\<open>response.json()\<close> fail, yield \<^verbatim>\<open>null\<close>, or yield an object.
\<close>

datatype 'a parsed = ParseError string | JsonNull | JsonValue 'a

datatype 'b fetched = Rejected string | Responded nat 'b

definition responseOk :: "nat \<Rightarrow> bool" where
  "responseOk status = (200 \<le> status \<and> status \<le> 299)"

text \<open>Decimal digits of a number, for the \<^verbatim>\<open>${...}\<close> of the message templates.\<close>

function showNat :: "nat \<Rightarrow> string" where
  "showNat n =
     (if n < 10 then [''0123456789'' ! n]
      else showNat (n div 10) @ [''0123456789'' ! (n mod 10)])"
  by pat_completeness auto
termination
  by (relation "measure id") auto

declare showNat.simps [simp del]

definition typeErrorNull :: string where
  "typeErrorNull = ''Cannot read properties of null''"

definition quotaError :: exn where
  "quotaError = Error ''QuotaExceededError''"

text \<open>
  A member file of a gist: \<^verbatim>\<open>null\<close>, an object without (or with empty) \<^verbatim>\<open>content\<close>, or
  an object whose content \<^verbatim>\<open>JSON.parse\<close> is applied to.
\<close>

datatype fileBody = NullFile | NoContent | Content "ShardData parsed"

record GistJson =
  error_message :: "string option"
  gist_id :: string
  gist_files :: "(string \<times> fileBody) list"

text \<open>
  The world outside one call of a synchronisation operation: the clock, the answers of the
  remote store to the requests the operation may send, the byte size of a serialised
  snapshot and of a note, and the keys of \<^verbatim>\<open>localStorage\<close> on which \<^verbatim>\<open>setItem\<close> throws
  because the quota is exceeded. \<open>btoaThrows\<close> says that the WebDAV credentials cannot be
  encoded by \<^verbatim>\<open>btoa\<close>.
\<close>

record Env =
  isoNow :: string
  getResponse :: "GistJson parsed fetched"
  patchResponse :: "GistJson parsed fetched"
  postResponse :: "GistJson parsed fetched"
  davGetResponse :: "Snapshot parsed fetched"
  davPutResponse :: "unit fetched"
  jsonSize :: "Snapshot \<Rightarrow> nat"
  noteSizeOf :: "Note \<Rightarrow> nat"
  baseSizeOf :: nat
  quotaExceeded :: "string \<Rightarrow> bool"
  btoaThrows :: bool

subsection \<open>StorageManager and the writes to localStorage\<close>

text \<open>
  \<^verbatim>\<open>saveNotes\<close> and \<^verbatim>\<open>saveCustomTags\<close> catch the exception of a failed write themselves:
  the store is then left as it was.
\<close>

definition saveNotes :: "Env \<Rightarrow> Note list \<Rightarrow> Store \<Rightarrow> Store" where
  "saveNotes env ns s =
     (if quotaExceeded env ''insight_notes'' then s else s\<lparr>insight_notes := ns\<rparr>)"

definition saveCustomTags :: "Env \<Rightarrow> CustomTag list \<Rightarrow> Store \<Rightarrow> Store" where
  "saveCustomTags env ts s =
     (if quotaExceeded env ''insight_custom_tags'' then s else s\<lparr>insight_custom_tags := ts\<rparr>)"

definition setTagColors :: "Env \<Rightarrow> TagColors \<Rightarrow> Store \<Rightarrow> exn + Store" where
  "setTagColors env tc s =
     (if quotaExceeded env ''insight_tag_colors'' then Inl quotaError
      else Inr (s\<lparr>insight_tag_colors := tc\<rparr>))"

definition updateLastSyncTime :: "Env \<Rightarrow> Store \<Rightarrow> exn + Store" where
  "updateLastSyncTime env s =
     (if quotaExceeded env ''insight_last_sync'' then Inl quotaError
      else Inr (s\<lparr>insight_last_sync := Some (isoNow env)\<rparr>))"

definition davUpdateLastSyncTime :: "Env \<Rightarrow> Store \<Rightarrow> exn + Store" where
  "davUpdateLastSyncTime env s =
     (if quotaExceeded env ''insight_webdav_last_sync'' then Inl quotaError
      else Inr (s\<lparr>insight_webdav_last_sync := Some (isoNow env)\<rparr>))"

definition setGistId :: "Env \<Rightarrow> string \<Rightarrow> Store \<Rightarrow> exn + Store" where
  "setGistId env i s =
     (if quotaExceeded env ''insight_gist_id'' then Inl quotaError
      else Inr (s\<lparr>insight_gist_id := Some i\<rparr>))"

text \<open>
  The \<^verbatim>\<open>try { ... } catch (error) { return { success: false, message: error.message } }\<close>
  that encloses the body of every synchronisation operation. The store keeps the writes
  made before the exception.
\<close>

definition catchError :: "(exn + SyncResult) \<times> Store \<Rightarrow> (exn + SyncResult) \<times> Store" where
  "catchError out =
     (case fst out of
        Inl (Error m) \<Rightarrow> (Inr (failure m), snd out)
      | Inr r \<Rightarrow> (Inr r, snd out))"

section \<open>The sharded Gist variant (sync.js, CloudSyncManager)\<close>

definition SHARD_PREFIX :: string where
  "SHARD_PREFIX = ''insight-shard-''"

definition startsWith :: "string \<Rightarrow> string \<Rightarrow> bool" where
  "startsWith s p = (take (length p) s = p)"

text \<open>
  The loop of \<^verbatim>\<open>getGist\<close> over \<^verbatim>\<open>gist.files\<close>: a file whose name starts with the shard
  prefix is parsed within its own \<^verbatim>\<open>try\<close>; a file that is missing, empty, malformed or
  \<^verbatim>\<open>null\<close> is skipped.
\<close>

definition shardFilesOf :: "(string \<times> fileBody) list \<Rightarrow> ShardData list" where
  "shardFilesOf fs =
     concat (map (\<lambda>(filename, file).
       if startsWith filename SHARD_PREFIX
       then (case file of Content (JsonValue shardData) \<Rightarrow> [shardData] | _ \<Rightarrow> [])
       else []) fs)"

text \<open>
  The fallback of \<^verbatim>\<open>getGist\<close>, and all of the legacy \<^verbatim>\<open>getGist\<close> after the fetch: the one
  file \<^verbatim>\<open>insight-notes.json\<close>. The result \<open>None\<close> is the JSON value \<^verbatim>\<open>null\<close>.
\<close>

definition legacyFile :: "(string \<times> fileBody) list \<Rightarrow> exn + Snapshot option" where
  "legacyFile fs =
     (case map_of fs ''insight-notes.json'' of
        None \<Rightarrow> Inl (Error ''backup file does not exist'')
      | Some NullFile \<Rightarrow> Inl (Error ''backup file does not exist'')
      | Some NoContent \<Rightarrow> Inl (Error ''SyntaxError'')
      | Some (Content (ParseError m)) \<Rightarrow> Inl (Error m)
      | Some (Content JsonNull) \<Rightarrow> Inr None
      | Some (Content (JsonValue d)) \<Rightarrow> Inr (Some (Snapshot.truncate d)))"

text \<open>
  \<^verbatim>\<open>errorData = await response.json().catch(() => ({}))\<close> and
  \<^verbatim>\<open>errorData.message || `HTTP ${response.status}`\<close>, thrown with a prefix.
\<close>

definition apiError :: "string \<Rightarrow> nat \<Rightarrow> GistJson parsed \<Rightarrow> exn" where
  "apiError what status body =
     (case body of
        ParseError m \<Rightarrow> Error (what @ ''HTTP '' @ showNat status)
      | JsonNull \<Rightarrow> Error typeErrorNull
      | JsonValue j \<Rightarrow> Error (what @ orElseString (error_message j) (''HTTP '' @ showNat status)))"

definition getGist :: "Store \<Rightarrow> GistJson parsed fetched \<Rightarrow> exn + Snapshot option" where
  "getGist s response =
     (if \<not> truthy (insight_github_token s) then Inl (Error ''not connected to GitHub'')
      else if \<not> truthy (insight_gist_id s) then Inl (Error ''no cloud backup found'')
      else (case response of
          Rejected m \<Rightarrow> Inl (Error m)
        | Responded status body \<Rightarrow>
            if \<not> responseOk status then Inl (apiError ''get Gist failed: '' status body)
            else (case body of
                ParseError m \<Rightarrow> Inl (Error m)
              | JsonNull \<Rightarrow> Inl (Error typeErrorNull)
              | JsonValue gist \<Rightarrow>
                  let shardFiles = shardFilesOf (gist_files gist)
                  in if length shardFiles = 0 then legacyFile (gist_files gist)
                     else Inr (Some (recombineShardFiles shardFiles)))))"

text \<open>
  \<^verbatim>\<open>[...new Set([...localTags, ...cloudData.customTags])]\<close>. The tags are objects, and a
  \<^verbatim>\<open>Set\<close> holds objects by identity. \<^verbatim>\<open>JSON.parse\<close> makes a new object for every element
  it reads, so an object is modelled as its address paired with its value; the cloud data is
  parsed first, the local tags after it. What is saved is the values again.
\<close>

definition allocate :: "nat \<Rightarrow> 'a list \<Rightarrow> (nat \<times> 'a) list" where
  "allocate next xs = zip [next..<next + length xs] xs"

definition setAdd :: "nat \<times> 'a \<Rightarrow> (nat \<times> 'a) list \<Rightarrow> (nat \<times> 'a) list" where
  "setAdd x st = (if fst x \<in> fst ` set st then st else st @ [x])"

definition newSet :: "(nat \<times> 'a) list \<Rightarrow> (nat \<times> 'a) list" where
  "newSet xs = fold setAdd xs []"

definition mergeCustomTags :: "CustomTag list \<Rightarrow> CustomTag list \<Rightarrow> CustomTag list" where
  "mergeCustomTags localTags cloudTags =
     (let cloudObjects = allocate 0 cloudTags;
          localObjects = allocate (length cloudTags) localTags
      in map snd (newSet (localObjects @ cloudObjects)))"

definition syncDownBody :: "Env \<Rightarrow> Store \<Rightarrow> (exn + SyncResult) \<times> Store" where
  "syncDownBody env s =
     (case getGist s (getResponse env) of
        Inl e \<Rightarrow> (Inl e, s)
      | Inr None \<Rightarrow> (Inl (Error typeErrorNull), s)
      | Inr (Some cloudData) \<Rightarrow>
          let localNotes = insight_notes s;
              localTags = insight_custom_tags s;
              s1 = (case notes' cloudData of
                      None \<Rightarrow> s
                    | Some cloudNotes \<Rightarrow> saveNotes env (mergeNotes localNotes cloudNotes) s);
              s2 = (case customTags cloudData of
                      None \<Rightarrow> s1
                    | Some cloudTags \<Rightarrow>
                        saveCustomTags env (mergeCustomTags localTags cloudTags) s1)
          in (case (case tagColors cloudData of
                      None \<Rightarrow> Inr s2
                    | Some tc \<Rightarrow> setTagColors env tc s2) of
                Inl e \<Rightarrow> (Inl e, s2)
              | Inr s3 \<Rightarrow>
                  (case updateLastSyncTime env s3 of
                     Inl e \<Rightarrow> (Inl e, s3)
                   | Inr s4 \<Rightarrow>
                       (Inr (successful
                              (''merged, '' @ showNat (length (insight_notes s4)) @ '' notes'')
                              None None), s4))))"

definition syncDown :: "Env \<Rightarrow> Store \<Rightarrow> (exn + SyncResult) \<times> Store" where
  "syncDown env s = catchError (syncDownBody env s)"

text \<open>
  \<^verbatim>\<open>createGist\<close> and \<^verbatim>\<open>updateGist\<close>, as far as they decide between returning and throwing
  and as far as they write to the store. The request bodies are built by \<^verbatim>\<open>shardNotes\<close> and
  the loop modelled by \<open>buildShardData\<close>; the look at the existing gist inside
  \<^verbatim>\<open>updateGist\<close> sits in a \<^verbatim>\<open>try\<close> of its own and only adds entries to the request.
\<close>

definition createGist :: "Env \<Rightarrow> Store \<Rightarrow> (exn + unit) \<times> Store" where
  "createGist env s =
     (if \<not> truthy (insight_github_token s) then (Inl (Error ''not connected to GitHub''), s)
      else (case postResponse env of
          Rejected m \<Rightarrow> (Inl (Error m), s)
        | Responded status body \<Rightarrow>
            if \<not> responseOk status then (Inl (apiError ''create Gist failed: '' status body), s)
            else (case body of
                ParseError m \<Rightarrow> (Inl (Error m), s)
              | JsonNull \<Rightarrow> (Inl (Error typeErrorNull), s)
              | JsonValue gist \<Rightarrow>
                  (case setGistId env (gist_id gist) s of
                     Inl e \<Rightarrow> (Inl e, s)
                   | Inr s' \<Rightarrow> (Inr (), s')))))"

definition updateGist :: "Env \<Rightarrow> Store \<Rightarrow> (exn + unit) \<times> Store" where
  "updateGist env s =
     (if \<not> truthy (insight_github_token s) then (Inl (Error ''not connected to GitHub''), s)
      else if \<not> truthy (insight_gist_id s) then createGist env s
      else (case patchResponse env of
          Rejected m \<Rightarrow> (Inl (Error m), s)
        | Responded status body \<Rightarrow>
            if \<not> responseOk status then
              (if status = 404 then createGist env (s\<lparr>insight_gist_id := None\<rparr>)
               else (Inl (apiError ''update Gist failed: '' status body), s))
            else (case body of
                ParseError m \<Rightarrow> (Inl (Error m), s)
              | _ \<Rightarrow> (Inr (), s))))"

text \<open>
  The first part of \<^verbatim>\<open>syncUp\<close>: the local notes, merged with the cloud notes when a gist
  id is stored and the gist can be read (a failure is caught and only logged).
\<close>

definition notesToUpload :: "Env \<Rightarrow> Store \<Rightarrow> Note list" where
  "notesToUpload env s =
     (if truthy (insight_gist_id s) then
        (case getGist s (getResponse env) of
           Inr (Some cloudData) \<Rightarrow>
             (case notes' cloudData of
                Some cloudNotes \<Rightarrow> mergeNotes (insight_notes s) cloudNotes
              | None \<Rightarrow> insight_notes s)
         | _ \<Rightarrow> insight_notes s)
      else insight_notes s)"

definition syncUpBody :: "Env \<Rightarrow> Store \<Rightarrow> (exn + SyncResult) \<times> Store" where
  "syncUpBody env s =
     (let data = \<lparr>notes' = Some (notesToUpload env s),
                  customTags = Some (insight_custom_tags s),
                  tagColors = Some (insight_tag_colors s),
                  syncTime = Some (isoNow env),
                  version = Some ''1.0''\<rparr>;
          sizeInBytes = jsonSize env data
      in (case updateGist env s of
            (Inl e, s1) \<Rightarrow> (Inl e, s1)
          | (Inr u, s1) \<Rightarrow>
              (case updateLastSyncTime env s1 of
                 Inl e \<Rightarrow> (Inl e, s1)
               | Inr s2 \<Rightarrow>
                   let shards = shardNotes (noteSizeOf env) (baseSizeOf env) (notesToUpload env s)
                   in (Inr (successful
                         (''upload ok'' @
                            (if length shards > 1
                             then '' ('' @ showNat (length shards) @ '' shards)'' else []))
                         (Some sizeInBytes) (Some (length shards))), s2))))"

definition syncUp :: "Env \<Rightarrow> Store \<Rightarrow> (exn + SyncResult) \<times> Store" where
  "syncUp env s = catchError (syncUpBody env s)"

section \<open>The WebDAV variant (webdav-sync.js, WebDAVSyncManager)\<close>

definition davConnected :: "Store \<Rightarrow> bool" where
  "davConnected s \<longleftrightarrow>
     truthy (insight_webdav_server s) \<and> truthy (insight_webdav_username s)
     \<and> truthy (insight_webdav_password s)"

definition webdavSyncUpBody :: "Env \<Rightarrow> Store \<Rightarrow> (exn + SyncResult) \<times> Store" where
  "webdavSyncUpBody env s =
     (if \<not> davConnected s then (Inl (Error ''WebDAV connection not configured''), s)
      else
        let data = \<lparr>notes' = Some (insight_notes s),
                    customTags = Some (insight_custom_tags s),
                    tagColors = Some (insight_tag_colors s),
                    syncTime = Some (isoNow env),
                    version = Some ''1.0''\<rparr>;
            sizeInBytes = jsonSize env data
        in if btoaThrows env then (Inl (Error ''InvalidCharacterError''), s)
           else (case davPutResponse env of
               Rejected m \<Rightarrow> (Inl (Error m), s)
             | Responded status body \<Rightarrow>
                 if responseOk status \<or> status = 201 \<or> status = 204 then
                   (case davUpdateLastSyncTime env s of
                      Inl e \<Rightarrow> (Inl e, s)
                    | Inr s1 \<Rightarrow> (Inr (successful ''upload ok'' (Some sizeInBytes) None), s1))
                 else if status = 401 then (Inr (failure ''authentication failed''), s)
                 else if status = 507 then (Inr (failure ''insufficient storage''), s)
                 else (Inr (failure (''upload failed ('' @ showNat status @ '')'')), s)))"

definition webdavSyncUp :: "Env \<Rightarrow> Store \<Rightarrow> (exn + SyncResult) \<times> Store" where
  "webdavSyncUp env s = catchError (webdavSyncUpBody env s)"

definition webdavSyncDownBody :: "Env \<Rightarrow> Store \<Rightarrow> (exn + SyncResult) \<times> Store" where
  "webdavSyncDownBody env s =
     (if \<not> davConnected s then (Inl (Error ''WebDAV connection not configured''), s)
      else if btoaThrows env then (Inl (Error ''InvalidCharacterError''), s)
      else (case davGetResponse env of
          Rejected m \<Rightarrow> (Inl (Error m), s)
        | Responded status body \<Rightarrow>
            if responseOk status then
              (case body of
                 ParseError m \<Rightarrow> (Inl (Error m), s)
               | JsonNull \<Rightarrow> (Inl (Error typeErrorNull), s)
               | JsonValue data \<Rightarrow>
                   let s1 = (case notes' data of None \<Rightarrow> s | Some ns \<Rightarrow> saveNotes env ns s);
                       s2 = (case customTags data of
                               None \<Rightarrow> s1
                             | Some ts \<Rightarrow> saveCustomTags env ts s1)
                   in (case (case tagColors data of
                               None \<Rightarrow> Inr s2
                             | Some tc \<Rightarrow> setTagColors env tc s2) of
                         Inl e \<Rightarrow> (Inl e, s2)
                       | Inr s3 \<Rightarrow>
                           (case davUpdateLastSyncTime env s3 of
                              Inl e \<Rightarrow> (Inl e, s3)
                            | Inr s4 \<Rightarrow> (Inr (successful ''download ok'' None None), s4))))
            else if status = 404 then (Inr (failure ''no data file found in the cloud''), s)
            else if status = 401 then (Inr (failure ''authentication failed''), s)
            else (Inr (failure (''download failed ('' @ showNat status @ '')'')), s)))"

definition webdavSyncDown :: "Env \<Rightarrow> Store \<Rightarrow> (exn + SyncResult) \<times> Store" where
  "webdavSyncDown env s = catchError (webdavSyncDownBody env s)"

section \<open>The single-file Gist variant (part_000, CloudSyncManager)\<close>

definition legacyGetGist :: "Store \<Rightarrow> GistJson parsed fetched \<Rightarrow> exn + Snapshot option" where
  "legacyGetGist s response =
     (if \<not> truthy (insight_github_token s) then Inl (Error ''not connected to GitHub'')
      else if \<not> truthy (insight_gist_id s) then Inl (Error ''no cloud backup found'')
      else (case response of
          Rejected m \<Rightarrow> Inl (Error m)
        | Responded status body \<Rightarrow>
            if \<not> responseOk status then Inl (Error ''get Gist failed'')
            else (case body of
                ParseError m \<Rightarrow> Inl (Error m)
              | JsonNull \<Rightarrow> Inl (Error typeErrorNull)
              | JsonValue gist \<Rightarrow> legacyFile (gist_files gist))))"

definition legacySyncDownBody :: "Env \<Rightarrow> Store \<Rightarrow> (exn + SyncResult) \<times> Store" where
  "legacySyncDownBody env s =
     (case legacyGetGist s (getResponse env) of
        Inl e \<Rightarrow> (Inl e, s)
      | Inr None \<Rightarrow> (Inl (Error typeErrorNull), s)
      | Inr (Some data) \<Rightarrow>
          let s1 = (case notes' data of None \<Rightarrow> s | Some ns \<Rightarrow> saveNotes env ns s);
              s2 = (case customTags data of None \<Rightarrow> s1 | Some ts \<Rightarrow> saveCustomTags env ts s1)
          in (case updateLastSyncTime env s2 of
                Inl e \<Rightarrow> (Inl e, s2)
              | Inr s3 \<Rightarrow> (Inr (successful ''download ok'' None None), s3)))"

definition legacySyncDown :: "Env \<Rightarrow> Store \<Rightarrow> (exn + SyncResult) \<times> Store" where
  "legacySyncDown env s = catchError (legacySyncDownBody env s)"

definition legacyCreateGist :: "Env \<Rightarrow> Store \<Rightarrow> (exn + unit) \<times> Store" where
  "legacyCreateGist env s =
     (if \<not> truthy (insight_github_token s) then (Inl (Error ''not connected to GitHub''), s)
      else (case postResponse env of
          Rejected m \<Rightarrow> (Inl (Error m), s)
        | Responded status body \<Rightarrow>
            if \<not> responseOk status then (Inl (Error ''create Gist failed''), s)
            else (case body of
                ParseError m \<Rightarrow> (Inl (Error m), s)
              | JsonNull \<Rightarrow> (Inl (Error typeErrorNull), s)
              | JsonValue gist \<Rightarrow>
                  (case setGistId env (gist_id gist) s of
                     Inl e \<Rightarrow> (Inl e, s)
                   | Inr s' \<Rightarrow> (Inr (), s')))))"

definition legacyUpdateGist :: "Env \<Rightarrow> Store \<Rightarrow> (exn + unit) \<times> Store" where
  "legacyUpdateGist env s =
     (if \<not> truthy (insight_github_token s) then (Inl (Error ''not connected to GitHub''), s)
      else if \<not> truthy (insight_gist_id s) then legacyCreateGist env s
      else (case patchResponse env of
          Rejected m \<Rightarrow> (Inl (Error m), s)
        | Responded status body \<Rightarrow>
            if \<not> responseOk status then
              (if status = 404 then legacyCreateGist env (s\<lparr>insight_gist_id := None\<rparr>)
               else (Inl (Error ''update Gist failed''), s))
            else (case body of
                ParseError m \<Rightarrow> (Inl (Error m), s)
              | _ \<Rightarrow> (Inr (), s))))"

definition legacySyncUpBody :: "Env \<Rightarrow> Store \<Rightarrow> (exn + SyncResult) \<times> Store" where
  "legacySyncUpBody env s =
     (case legacyUpdateGist env s of
        (Inl e, s1) \<Rightarrow> (Inl e, s1)
      | (Inr u, s1) \<Rightarrow>
          (case updateLastSyncTime env s1 of
             Inl e \<Rightarrow> (Inl e, s1)
           | Inr s2 \<Rightarrow> (Inr (successful ''upload ok'' None None), s2)))"

definition legacySyncUp :: "Env \<Rightarrow> Store \<Rightarrow> (exn + SyncResult) \<times> Store" where
  "legacySyncUp env s = catchError (legacySyncUpBody env s)"

section \<open>The auto-sync scheduler (sync.js, startAutoSync and the methods around it)\<close>

text \<open>
  The numbers of the runtime, of a type \<open>'n\<close>, with what the scheduler does to them:
  \<^verbatim>\<open>minutes.toString()\<close>, \<^verbatim>\<open>parseInt(string)\<close>, the product \<^verbatim>\<open>a * b\<close> and the numeric
  literals. They belong to the language and not to this program, which is taken over any
  such numbers.
\<close>

record 'n Numbers =
  numberToString :: "'n \<Rightarrow> string"
  parseInt :: "string \<Rightarrow> 'n"
  multiply :: "'n \<Rightarrow> 'n \<Rightarrow> 'n"
  number :: "nat \<Rightarrow> 'n"

text \<open>
  The manager's field \<^verbatim>\<open>autoSyncTimer\<close>, the interval timers that it has set in the
  runtime and not cleared (identifier, and the delay that was passed to \<^verbatim>\<open>setInterval\<close>),
  the runtime's counter of timer identifiers (an identifier is a positive integer), and the
  keys of \<^verbatim>\<open>localStorage\<close> that the scheduler reads, each holding a string or nothing.
\<close>

record 'n Scheduler =
  autoSyncTimer :: "nat option"
  activeTimers :: "(nat \<times> 'n) list"
  timerCounter :: nat
  auto_sync :: "string option"
  sync_interval :: "string option"
  github_token :: "string option"

definition isConnected :: "'n Scheduler \<Rightarrow> bool" where
  "isConnected s = truthy (github_token s)"

definition setInterval :: "'n \<Rightarrow> 'n Scheduler \<Rightarrow> nat \<times> 'n Scheduler" where
  "setInterval delay s =
     (Suc (timerCounter s),
      s\<lparr>activeTimers := activeTimers s @ [(Suc (timerCounter s), delay)],
        timerCounter := Suc (timerCounter s)\<rparr>)"

definition clearInterval :: "nat \<Rightarrow> 'n Scheduler \<Rightarrow> 'n Scheduler" where
  "clearInterval i s = s\<lparr>activeTimers := filter (\<lambda>t. fst t \<noteq> i) (activeTimers s)\<rparr>"

text \<open>\<^verbatim>\<open>if (this.autoSyncTimer)\<close>: \<^verbatim>\<open>null\<close> is falsy, and so is the number 0.\<close>

definition stopAutoSync :: "'n Scheduler \<Rightarrow> 'n Scheduler" where
  "stopAutoSync s =
     (case autoSyncTimer s of
        None \<Rightarrow> s
      | Some i \<Rightarrow> if i \<noteq> 0 then (clearInterval i s)\<lparr>autoSyncTimer := None\<rparr> else s)"

text \<open>
  \<^verbatim>\<open>parseInt(localStorage.getItem(this.SYNC_INTERVAL_KEY) || '10')\<close> reads the stored string,
  and the timer is set with \<^verbatim>\<open>interval * 60 * 1000\<close>.
\<close>

definition startAutoSync :: "'n Numbers \<Rightarrow> 'n Scheduler \<Rightarrow> 'n Scheduler" where
  "startAutoSync js s =
     (let s1 = stopAutoSync s;
          enabled = (auto_sync s1 = Some ''true'');
          interval = parseInt js (orElseString (sync_interval s1) ''10'')
      in if enabled \<and> isConnected s1
         then (case setInterval
                      (multiply js (multiply js interval (number js 60)) (number js 1000)) s1 of
                 (i, s2) \<Rightarrow> s2\<lparr>autoSyncTimer := Some i\<rparr>)
         else s1)"

definition setAutoSyncEnabled :: "'n Numbers \<Rightarrow> bool \<Rightarrow> 'n Scheduler \<Rightarrow> 'n Scheduler" where
  "setAutoSyncEnabled js enabled s =
     (let s1 = s\<lparr>auto_sync := Some (if enabled then ''true'' else ''false'')\<rparr>
      in if enabled then startAutoSync js s1 else stopAutoSync s1)"

text \<open>\<^verbatim>\<open>localStorage.setItem(this.SYNC_INTERVAL_KEY, minutes.toString())\<close> stores a string.\<close>

definition setSyncInterval :: "'n Numbers \<Rightarrow> 'n \<Rightarrow> 'n Scheduler \<Rightarrow> 'n Scheduler" where
  "setSyncInterval js minutes s =
     (let s1 = s\<lparr>sync_interval := Some (numberToString js minutes)\<rparr>
      in if auto_sync s1 = Some ''true'' then startAutoSync js s1 else s1)"

definition saveToken :: "string \<Rightarrow> 'n Scheduler \<Rightarrow> 'n Scheduler" where
  "saveToken t s = s\<lparr>github_token := Some t\<rparr>"

definition clearToken :: "'n Scheduler \<Rightarrow> 'n Scheduler" where
  "clearToken s = s\<lparr>github_token := None\<rparr>"

text \<open>
  The constructor sets \<^verbatim>\<open>autoSyncTimer = null\<close>; the configuration is whatever an earlier
  session left in \<^verbatim>\<open>localStorage\<close>, and the runtime's counter is anywhere.
\<close>

definition newManager ::
  "nat \<Rightarrow> string option \<Rightarrow> string option \<Rightarrow> string option \<Rightarrow> 'n Scheduler" where
  "newManager counter autoSync interval token =
     \<lparr>autoSyncTimer = None, activeTimers = [], timerCounter = counter,
      auto_sync = autoSync, sync_interval = interval, github_token = token\<rparr>"

text \<open>The calls that a client can make on the manager, and a sequence of them.\<close>

datatype 'n call =
    StartAutoSync
  | StopAutoSync
  | SetAutoSyncEnabled bool
  | SetSyncInterval 'n
  | SaveToken string
  | ClearToken

fun exec :: "'n Numbers \<Rightarrow> 'n call \<Rightarrow> 'n Scheduler \<Rightarrow> 'n Scheduler" where
  "exec js StartAutoSync s = startAutoSync js s"
| "exec js StopAutoSync s = stopAutoSync s"
| "exec js (SetAutoSyncEnabled b) s = setAutoSyncEnabled js b s"
| "exec js (SetSyncInterval m) s = setSyncInterval js m s"
| "exec js (SaveToken t) s = saveToken t s"
| "exec js ClearToken s = clearToken s"

definition run :: "'n Numbers \<Rightarrow> 'n call list \<Rightarrow> 'n Scheduler \<Rightarrow> 'n Scheduler" where
  "run js calls s = fold (exec js) calls s"

text \<open>
  The scheduler is consistent: the manager's field names the one timer that is active, or
  it is \<^verbatim>\<open>null\<close> and no timer is active.
\<close>

definition consistent :: "'n Scheduler \<Rightarrow> bool" where
  "consistent s \<longleftrightarrow>
     (case autoSyncTimer s of
        None \<Rightarrow> activeTimers s = []
      | Some i \<Rightarrow> 0 < i \<and> i \<le> timerCounter s \<and> map fst (activeTimers s) = [i])"

section \<open>Notions used to state and prove the properties\<close>

text \<open>A merge map is well formed: its keys are distinct and every note sits under its id.\<close>

definition wfMap :: "notesMap \<Rightarrow> bool" where
  "wfMap m \<longleftrightarrow> distinct (map fst m) \<and> (\<forall>p\<in>set m. note_id (snd p) = fst p)"

text \<open>What the second loop of \<^verbatim>\<open>mergeNotes\<close> leaves under a key, given what was there.\<close>

definition pick :: "Note option \<Rightarrow> Note \<Rightarrow> Note" where
  "pick existing n =
     (case existing of
        None \<Rightarrow> n
      | Some e \<Rightarrow> if laterThan (timestamp n) (timestamp e) then n else e)"

text \<open>\<open>f\<close> holds, under every key of \<open>g\<close>, the note of \<open>g\<close> or a strictly newer one.\<close>

definition le_map :: "(string \<rightharpoonup> Note) \<Rightarrow> (string \<rightharpoonup> Note) \<Rightarrow> bool" where
  "le_map g f \<longleftrightarrow>
     (\<forall>k e. g k = Some e \<longrightarrow>
        (\<exists>r. f k = Some r \<and> (r = e \<or> laterThan (timestamp r) (timestamp e))))"

text \<open>The end of \<^verbatim>\<open>shardNotes\<close> after the loop: the shard under construction is closed.\<close>

definition closeShards :: "Note list list \<times> Note list \<times> nat \<Rightarrow> Note list list" where
  "closeShards st =
     (case st of (shards, cur, z) \<Rightarrow> if length cur > 0 then shards @ [cur] else shards)"

text \<open>The value of a field in the last shard that carries it, if any shard does.\<close>

fun lastPresent :: "'a option list \<Rightarrow> 'a option" where
  "lastPresent [] = None"
| "lastPresent (x # xs) = (case lastPresent xs of Some v \<Rightarrow> Some v | None \<Rightarrow> x)"

text \<open>The sync times that the shards carry (present and not the empty string).\<close>

definition presentSyncTimes :: "ShardData list \<Rightarrow> string list" where
  "presentSyncTimes sds =
     filter (\<lambda>t. t \<noteq> [])
       (concat (map (\<lambda>sd. case syncTime sd of None \<Rightarrow> [] | Some t \<Rightarrow> [t]) sds))"

text \<open>
  The interval that \<^verbatim>\<open>startAutoSync\<close> reads after \<^verbatim>\<open>setSyncInterval(minutes)\<close> has stored
  it, and the delay that it passes to \<^verbatim>\<open>setInterval\<close> for an interval.
\<close>

definition readBack :: "'n Numbers \<Rightarrow> 'n \<Rightarrow> 'n" where
  "readBack js minutes = parseInt js (orElseString (Some (numberToString js minutes)) ''10'')"

definition milliseconds :: "'n Numbers \<Rightarrow> 'n \<Rightarrow> 'n" where
  "milliseconds js interval = multiply js (multiply js interval (number js 60)) (number js 1000)"

section \<open>Example data\<close>

definition noteL1 :: Note where
  "noteL1 =
     \<lparr>note_id = ''1'', timestamp = Some 2, content = ''local'', updatedAt = ''2024-01-02''\<rparr>"

definition noteR1 :: Note where
  "noteR1 =
     \<lparr>note_id = ''1'', timestamp = Some 1, content = ''remote'', updatedAt = ''2024-01-01''\<rparr>"

definition noteR2 :: Note where
  "noteR2 =
     \<lparr>note_id = ''2'', timestamp = Some 3, content = ''other'', updatedAt = ''2024-01-03''\<rparr>"

text \<open>Two versions of one note as the application stores them, the second edited later.\<close>

definition noteOld :: Note where
  "noteOld =
     \<lparr>note_id = ''1704103200000'', timestamp = None, content = ''first draft'',
      updatedAt = ''2024-01-01T10:00:00.000Z''\<rparr>"

definition noteNew :: Note where
  "noteNew =
     \<lparr>note_id = ''1704103200000'', timestamp = None, content = ''second draft'',
      updatedAt = ''2024-01-02T08:30:00.000Z''\<rparr>"

definition emptySnapshot :: Snapshot where
  "emptySnapshot =
     \<lparr>notes' = None, customTags = None, tagColors = None, syncTime = None, version = None\<rparr>"

text \<open>A size estimator under which the note with id 2 alone exceeds the shard limit.\<close>

definition sizeEx :: "Note \<Rightarrow> nat" where
  "sizeEx n = (if note_id n = ''2'' then 900000 else 100)"

definition shardOf :: "string option \<Rightarrow> CustomTag list option \<Rightarrow> ShardData" where
  "shardOf t tags =
     \<lparr>notes' = None, customTags = tags, tagColors = None, syncTime = t, version = None,
      shardInfo = None\<rparr>"

definition tagA :: CustomTag where
  "tagA = \<lparr>tag_id = ''10'', tag_name = ''#a'', createdAt = ''2024-01-01''\<rparr>"


definition tagB :: CustomTag where
  "tagB = \<lparr>tag_id = ''11'', tag_name = ''#b'', createdAt = ''2024-01-05''\<rparr>"

definition shardEx :: ShardData where
  "shardEx =
     \<lparr>notes' = Some [noteR1, noteR2], customTags = Some [tagA], tagColors = None,
      syncTime = Some ''2024-02-01'', version = Some ''1.0'',
      shardInfo = Some \<lparr>index = 0, total = 1\<rparr>\<rparr>"

definition cloudEx :: Snapshot where
  "cloudEx =
     \<lparr>notes' = Some [noteR1, noteR2], customTags = Some [tagA], tagColors = Some [],
      syncTime = Some ''2024-02-01'', version = Some ''1.0''\<rparr>"

definition fileEx :: Snapshot where
  "fileEx =
     \<lparr>notes' = Some [noteR1, noteR2], customTags = Some [tagA], tagColors = None,
      syncTime = Some ''2024-02-01'', version = Some ''1.0''\<rparr>"

definition gistEx :: GistJson where
  "gistEx =
     \<lparr>error_message = None, gist_id = ''g1'',
      gist_files = [(''insight-shard-0.json'', Content (JsonValue shardEx))]\<rparr>"

definition gistLegacyEx :: GistJson where
  "gistLegacyEx =
     \<lparr>error_message = None, gist_id = ''g1'',
      gist_files = [(''insight-notes.json'', Content (JsonValue shardEx))]\<rparr>"

definition envEx :: Env where
  "envEx =
     \<lparr>isoNow = ''2024-03-01'',
      getResponse = Responded 200 (JsonValue gistEx),
      patchResponse = Responded 200 (JsonValue gistEx),
      postResponse = Responded 201 (JsonValue gistEx),
      davGetResponse = Responded 200 (JsonValue fileEx),
      davPutResponse = Responded 201 (),
      jsonSize = (\<lambda>d. 1000),
      noteSizeOf = sizeEx,
      baseSizeOf = 100,
      quotaExceeded = (\<lambda>k. False),
      btoaThrows = False\<rparr>"

definition envLegacyEx :: Env where
  "envLegacyEx = envEx\<lparr>getResponse := Responded 200 (JsonValue gistLegacyEx)\<rparr>"

definition storeEx :: Store where
  "storeEx =
     \<lparr>insight_notes = [noteL1],
      insight_custom_tags = [tagB],
      insight_tag_colors = [],
      insight_github_token = Some ''token'',
      insight_gist_id = Some ''g1'',
      insight_last_sync = None,
      insight_webdav_server = Some ''https://dav.example/'',
      insight_webdav_username = Some ''user'',
      insight_webdav_password = Some ''secret'',
      insight_webdav_last_sync = None\<rparr>"

text \<open>
  Numbers for the examples: the natural numbers and \<^verbatim>\<open>NaN\<close> (\<open>None\<close>), printed in decimal
  and read from the decimal digits at the head of a string, which is how the runtime prints
  and reads the minute counts 5, 10 and 15 of the examples.
\<close>

definition digitValue :: "char \<Rightarrow> nat" where
  "digitValue c = length (takeWhile (\<lambda>d. d \<noteq> c) ''0123456789'')"

definition leadingDigits :: "string \<Rightarrow> string" where
  "leadingDigits s = takeWhile (\<lambda>c. c \<in> set ''0123456789'') s"

definition naturals :: "nat option Numbers" where
  "naturals =
     \<lparr>numberToString = (\<lambda>n. case n of None \<Rightarrow> ''NaN'' | Some k \<Rightarrow> showNat k),
      parseInt = (\<lambda>s. if leadingDigits s = [] then None
                       else Some (foldl (\<lambda>a c. 10 * a + digitValue c) 0 (leadingDigits s))),
      multiply = (\<lambda>a b. case a of None \<Rightarrow> None
                         | Some x \<Rightarrow> (case b of None \<Rightarrow> None | Some y \<Rightarrow> Some (x * y))),
      number = Some\<rparr>"

section \<open>Properties of the merge map\<close>

lemma map_of_mapSet: "map_of (mapSet k v m) = (map_of m)(k \<mapsto> v)"
  by (induction m) auto

lemma keys_mapSet: "fst ` set (mapSet k v m) = insert k (fst ` set m)"
  by (induction m) auto

lemma distinct_mapSet: "distinct (map fst m) \<Longrightarrow> distinct (map fst (mapSet k v m))"
  by (induction m) (auto simp: keys_mapSet)

lemma values_mapSet: "snd ` set (mapSet k v m) \<subseteq> insert v (snd ` set m)"
  by (induction m) auto

lemma keyed_mapSet:
  "\<forall>p\<in>set m. note_id (snd p) = fst p \<Longrightarrow> note_id v = k
    \<Longrightarrow> \<forall>p\<in>set (mapSet k v m). note_id (snd p) = fst p"
  by (induction m) auto
lemma wfMap_Nil: "wfMap []"
  by (simp add: wfMap_def)

lemma wfMap_mapSet: "wfMap m \<Longrightarrow> wfMap (mapSet (note_id n) n m)"
  unfolding wfMap_def using distinct_mapSet keyed_mapSet by blast

lemma wfMap_addLocal: "wfMap m \<Longrightarrow> wfMap (addLocal n m)"
  by (simp add: addLocal_def wfMap_mapSet)

lemma wfMap_addCloud: "wfMap m \<Longrightarrow> wfMap (addCloud n m)"
  by (simp add: addCloud_def wfMap_mapSet split: option.splits)

lemma wfMap_ids: "wfMap m \<Longrightarrow> map note_id (map snd m) = map fst m"
  by (simp add: wfMap_def)

lemma wfMap_fold_addLocal: "wfMap m \<Longrightarrow> wfMap (fold addLocal xs m)"
  by (induction xs arbitrary: m) (simp_all add: wfMap_addLocal)

lemma wfMap_fold_addCloud: "wfMap m \<Longrightarrow> wfMap (fold addCloud xs m)"
  by (induction xs arbitrary: m) (simp_all add: wfMap_addCloud)

lemma wfMap_mergeMap: "wfMap (mergeMap L C)"
  by (simp add: mergeMap_def wfMap_fold_addCloud wfMap_fold_addLocal wfMap_Nil)

lemma values_fold_addLocal: "snd ` set (fold addLocal xs m) \<subseteq> set xs \<union> snd ` set m"
proof (induction xs arbitrary: m)
  case Nil
  show ?case by simp
next
  case (Cons x xs)
  have "snd ` set (addLocal x m) \<subseteq> insert x (snd ` set m)"
    unfolding addLocal_def by (rule values_mapSet)
  with Cons [of "addLocal x m"] show ?case by auto
qed

lemma values_addCloud: "snd ` set (addCloud x m) \<subseteq> insert x (snd ` set m)"
  unfolding addCloud_def using values_mapSet [of "note_id x" x m]
  by (auto split: option.splits)

lemma values_fold_addCloud: "snd ` set (fold addCloud xs m) \<subseteq> set xs \<union> snd ` set m"
proof (induction xs arbitrary: m)
  case Nil
  show ?case by simp
next
  case (Cons x xs)
  from Cons [of "addCloud x m"] values_addCloud [of x m] show ?case by auto
qed

lemma values_mergeMap: "snd ` set (mergeMap L C) \<subseteq> set L \<union> set C"
  unfolding mergeMap_def
  using values_fold_addCloud [of C "fold addLocal L []"] values_fold_addLocal [of L "[]"]
  by auto

lemma mset_insertBy: "mset (insertBy cmp x xs) = add_mset x (mset xs)"
  by (induction xs) simp_all

lemma mset_sortBy: "mset (sortBy cmp xs) = mset xs"
  by (induction xs) (simp_all add: sortBy_def mset_insertBy)

lemma mset_sortByRecency: "mset (sortByRecency xs) = mset xs"
  by (simp add: sortByRecency_def mset_sortBy)

lemma set_sortByRecency: "set (sortByRecency xs) = set xs"
  using mset_sortByRecency [of xs] by (rule mset_eq_setD)

lemma laterThan_trans: "laterThan a b \<Longrightarrow> laterThan b c \<Longrightarrow> laterThan a c"
  by (auto simp: laterThan_def split: option.splits)

lemma distinct_ids_sortByRecency:
  "distinct (map note_id (sortByRecency xs)) = distinct (map note_id xs)"
proof -
  have "mset (map note_id (sortByRecency xs)) = mset (map note_id xs)"
    by (simp add: mset_sortByRecency)
  then show ?thesis by (rule mset_eq_imp_distinct_iff)
qed

lemma distinct_ids_mergeNotes: "distinct (map note_id (mergeNotes L C))"
proof -
  have "wfMap (mergeMap L C)" by (rule wfMap_mergeMap)
  then have "distinct (map note_id (map snd (mergeMap L C)))"
    unfolding wfMap_ids [OF \<open>wfMap (mergeMap L C)\<close>] by (simp add: wfMap_def)
  then show ?thesis by (simp add: mergeNotes_def distinct_ids_sortByRecency)
qed

lemma set_mergeNotes: "set (mergeNotes L C) = snd ` set (mergeMap L C)"
  by (simp add: mergeNotes_def set_sortByRecency)

lemma map_of_addLocal: "map_of (addLocal n m) = (map_of m)(note_id n \<mapsto> n)"
  by (simp add: addLocal_def map_of_mapSet)

lemma map_of_addCloud:
  "map_of (addCloud n m) =
     (case map_of m (note_id n) of
        None \<Rightarrow> (map_of m)(note_id n \<mapsto> n)
      | Some e \<Rightarrow>
          if laterThan (timestamp n) (timestamp e) then (map_of m)(note_id n \<mapsto> n)
          else map_of m)"
  by (simp add: addCloud_def mapGet_def map_of_mapSet split: option.splits)
lemma map_of_addCloud_pick:
  "map_of (addCloud n m) = (map_of m)(note_id n \<mapsto> pick (map_of m (note_id n)) n)"
  by (auto simp: map_of_addCloud pick_def split: option.splits)

lemma fold_addCloud_distinct:
  "distinct (map note_id R) \<Longrightarrow>
   map_of (fold addCloud R m) k =
     (case find (\<lambda>r. note_id r = k) R of
        None \<Rightarrow> map_of m k
      | Some r \<Rightarrow> Some (pick (map_of m k) r))"
proof (induction R arbitrary: m)
  case Nil
  show ?case by simp
next
  case (Cons x R)
  have d: "distinct (map note_id R)" and nx: "note_id x \<notin> note_id ` set R"
    using Cons.prems by simp_all
  show ?case
  proof (cases "note_id x = k")
    case True
    have "\<forall>r\<in>set R. note_id r \<noteq> k"
      using nx True by (auto simp: image_iff)
    then have "find (\<lambda>r. note_id r = k) R = None"
      by (simp add: find_None_iff)
    then show ?thesis
      using True by (simp add: Cons.IH [OF d] map_of_addCloud_pick)
  next
    case False
    then have "map_of (addCloud x m) k = map_of m k"
      by (simp add: map_of_addCloud_pick)
    with False show ?thesis
      by (simp add: Cons.IH [OF d] cong: option.case_cong)
  qed
qed
lemma le_mapD:
  "le_map g f \<Longrightarrow> g k = Some e \<Longrightarrow>
   \<exists>r. f k = Some r \<and> (r = e \<or> laterThan (timestamp r) (timestamp e))"
  unfolding le_map_def by blast

lemma le_map_refl: "le_map g g"
  by (simp add: le_map_def)

lemma le_map_trans:
  assumes "le_map f g" and "le_map g h"
  shows "le_map f h"
  unfolding le_map_def
proof (intro allI impI)
  fix k e
  assume "f k = Some e"
  from le_mapD [OF assms(1) this] obtain r
    where r: "g k = Some r" "r = e \<or> laterThan (timestamp r) (timestamp e)"
    by blast
  from le_mapD [OF assms(2) r(1)] obtain s
    where s: "h k = Some s" "s = r \<or> laterThan (timestamp s) (timestamp r)"
    by blast
  from r(2) s(2) have "s = e \<or> laterThan (timestamp s) (timestamp e)"
    by (auto intro: laterThan_trans)
  with s(1) show "\<exists>r. h k = Some r \<and> (r = e \<or> laterThan (timestamp r) (timestamp e))"
    by blast
qed

lemma le_map_addCloud: "le_map (map_of m) (map_of (addCloud n m))"
  by (auto simp: le_map_def map_of_addCloud_pick pick_def)

lemma le_map_fold_addCloud: "le_map (map_of m) (map_of (fold addCloud C m))"
proof (induction C arbitrary: m)
  case Nil
  show ?case by (simp add: le_map_refl)
next
  case (Cons x C)
  from le_map_addCloud [of m x] Cons [of "addCloud x m"] show ?case
    by (auto intro: le_map_trans)
qed

lemma find_in_wf_values:
  assumes "wfMap M" and "mset R = mset (map snd M)"
  shows "find (\<lambda>r. note_id r = k) R = map_of M k"
proof (cases "map_of M k")
  case None
  then have "k \<notin> fst ` set M" by (simp add: map_of_eq_None_iff)
  moreover have "set R = snd ` set M" using assms(2) by (metis mset_eq_setD set_map)
  ultimately have "\<forall>r\<in>set R. note_id r \<noteq> k"
    using assms(1) by (auto simp: wfMap_def)
  then show ?thesis using None by (simp add: find_None_iff)
next
  case (Some v)
  then have vin: "(k, v) \<in> set M" by (rule map_of_SomeD)
  have sR: "set R = snd ` set M" using assms(2) by (metis mset_eq_setD set_map)
  have dR: "distinct (map note_id R)"
  proof -
    have "mset (map note_id R) = mset (map fst M)"
      using assms by (metis mset_map wfMap_ids)
    then show ?thesis using assms(1) by (metis mset_eq_imp_distinct_iff wfMap_def)
  qed
  have vR: "v \<in> set R" using vin sR by force
  have idv: "note_id v = k" using vin assms(1) by (auto simp: wfMap_def)
  obtain r where r: "find (\<lambda>r. note_id r = k) R = Some r"
    using vR idv by (cases "find (\<lambda>r. note_id r = k) R") (auto simp: find_None_iff)
  then have "r \<in> set R" "note_id r = k"
    by (auto simp: find_Some_iff)
  with vR idv dR have "r = v"
    by (metis distinct_map inj_onD)
  with r Some show ?thesis by simp
qed

lemma mergeMap_idem: "map_of (mergeMap L (mergeNotes L C)) = map_of (mergeMap L C)"
proof
  fix k
  let ?G = "fold addLocal L []"
  let ?M = "mergeMap L C"
  let ?R = "mergeNotes L C"
  have wf: "wfMap ?M" by (rule wfMap_mergeMap)
  have mR: "mset ?R = mset (map snd ?M)" by (simp add: mergeNotes_def mset_sortByRecency)
  have dR: "distinct (map note_id ?R)" by (rule distinct_ids_mergeNotes)
  have fnd: "find (\<lambda>r. note_id r = k) ?R = map_of ?M k"
    by (rule find_in_wf_values [OF wf mR])
  have le: "le_map (map_of ?G) (map_of ?M)"
    unfolding mergeMap_def by (rule le_map_fold_addCloud)
  have "map_of (mergeMap L ?R) k =
      (case map_of ?M k of None \<Rightarrow> map_of ?G k | Some r \<Rightarrow> Some (pick (map_of ?G k) r))"
    unfolding mergeMap_def [of L ?R] fold_addCloud_distinct [OF dR] fnd ..
  also have "\<dots> = map_of ?M k"
  proof (cases "map_of ?M k")
    case None
    then have "map_of ?G k = None"
      using le_mapD [OF le, of k] by (cases "map_of ?G k") auto
    with None show ?thesis by simp
  next
    case (Some r)
    show ?thesis
    proof (cases "map_of ?G k")
      case None
      with Some show ?thesis by (simp add: pick_def)
    next
      case (Some e)
      with le_mapD [OF le, of k e] \<open>map_of ?M k = Some r\<close>
      have "r = e \<or> laterThan (timestamp r) (timestamp e)"
        by auto
      with Some \<open>map_of ?M k = Some r\<close> show ?thesis by (auto simp: pick_def)
    qed
  qed
  finally show "map_of (mergeMap L ?R) k = map_of ?M k" .
qed

lemma set_mergeNotes_ran: "set (mergeNotes L C) = ran (map_of (mergeMap L C))"
  using wfMap_mergeMap [of L C] by (simp add: set_mergeNotes ran_distinct wfMap_def)

lemma find_distinct_ids:
  "distinct (map note_id (xs::Note list)) \<Longrightarrow> x \<in> set xs \<Longrightarrow> find (\<lambda>r. note_id r = note_id x) xs = Some x"
proof (induction xs)
  case Nil
  then show ?case by simp
next
  case (Cons y ys)
  show ?case
  proof (cases "x = y")
    case True
    then show ?thesis by simp
  next
    case False
    with Cons.prems have xin: "x \<in> set ys" by simp
    then have "note_id x \<in> note_id ` set ys" by (rule imageI)
    with Cons.prems(1) have "note_id y \<noteq> note_id x" by auto
    with Cons.IH xin Cons.prems(1) show ?thesis by simp
  qed
qed

lemma filter_distinct_ids:
  "distinct (map note_id (xs::Note list)) \<Longrightarrow> x \<in> set xs \<Longrightarrow> filter (\<lambda>r. note_id r = note_id x) xs = [x]"
proof (induction xs)
  case Nil
  then show ?case by simp
next
  case (Cons y ys)
  have d: "distinct (map note_id ys)" and ny: "note_id y \<notin> note_id ` set ys"
    using Cons.prems(1) by simp_all
  show ?case
  proof (cases "x \<in> set ys")
    case True
    then have "note_id x \<in> note_id ` set ys" by (rule imageI)
    with ny have "note_id y \<noteq> note_id x" by auto
    with Cons.IH [OF d True] show ?thesis by simp
  next
    case False
    with Cons.prems(2) have xy: "x = y" by simp
    have "\<forall>r\<in>set ys. note_id r \<noteq> note_id y" using ny by (auto simp: image_iff)
    then have "filter (\<lambda>r. note_id r = note_id y) ys = []"
      by (simp add: filter_empty_conv)
    with xy show ?thesis by simp
  qed
qed

lemma fold_addLocal_distinct:
  "distinct (map note_id L) \<Longrightarrow>
   map_of (fold addLocal L m) k =
     (case find (\<lambda>r. note_id r = k) L of None \<Rightarrow> map_of m k | Some r \<Rightarrow> Some r)"
proof (induction L arbitrary: m)
  case Nil
  show ?case by simp
next
  case (Cons x L)
  have d: "distinct (map note_id L)" and nx: "note_id x \<notin> note_id ` set L"
    using Cons.prems by simp_all
  show ?case
  proof (cases "note_id x = k")
    case True
    have "\<forall>r\<in>set L. note_id r \<noteq> k"
      using nx True by (auto simp: image_iff)
    then have "find (\<lambda>r. note_id r = k) L = None"
      by (simp add: find_None_iff)
    then show ?thesis
      using True by (simp add: Cons.IH [OF d] map_of_addLocal)
  next
    case False
    then have "map_of (addLocal x m) k = map_of m k"
      by (simp add: map_of_addLocal)
    with False show ?thesis
      by (simp add: Cons.IH [OF d] cong: option.case_cong)
  qed
qed

lemma mergeMap_collision:
  assumes "distinct (map note_id L)" and "distinct (map note_id C)"
    and "l \<in> set L" and "c \<in> set C" and "note_id c = note_id l"
  shows "map_of (mergeMap L C) (note_id l) =
           Some (if laterThan (timestamp c) (timestamp l) then c else l)"
proof -
  have "find (\<lambda>r. note_id r = note_id l) L = Some l"
    using assms(1,3) by (rule find_distinct_ids)
  then have G: "map_of (fold addLocal L []) (note_id l) = Some l"
    by (simp add: fold_addLocal_distinct [OF assms(1)])
  have "find (\<lambda>r. note_id r = note_id c) C = Some c"
    using assms(2,4) by (rule find_distinct_ids)
  then have "find (\<lambda>r. note_id r = note_id l) C = Some c"
    by (simp add: assms(5))
  then show ?thesis
    by (simp add: mergeMap_def fold_addCloud_distinct [OF assms(2)] G pick_def)
qed

lemma filter_mergeNotes:
  assumes "map_of (mergeMap L C) k = Some v"
  shows "filter (\<lambda>n. note_id n = k) (mergeNotes L C) = [v]"
proof -
  have wf: "wfMap (mergeMap L C)" by (rule wfMap_mergeMap)
  from assms have "(k, v) \<in> set (mergeMap L C)" by (rule map_of_SomeD)
  then have "v \<in> set (mergeNotes L C)" and "note_id v = k"
    using wf by (auto simp: set_mergeNotes wfMap_def image_iff intro: bexI [of _ "(k, v)"])
  with filter_distinct_ids [OF distinct_ids_mergeNotes, of v L C] show ?thesis by simp
qed

section \<open>Properties of sharding and recombination\<close>

lemma shardLoop_concat:
  "shardLoop sz b xs shards cur csize = (S, c, z) \<Longrightarrow> concat S @ c = concat shards @ cur @ xs"
  by (induction xs arbitrary: shards cur csize) (auto split: if_splits)

lemma concat_shardNotes: "concat (shardNotes sz b N) = sortByRecency N"
proof -
  obtain S c z where r: "shardLoop sz b (sortByRecency N) [] [] 0 = (S, c, z)"
    by (metis prod_cases3)
  from shardLoop_concat [OF r] have "concat S @ c = sortByRecency N" by simp
  then show ?thesis
    by (auto simp: shardNotes_def r Let_def)
qed

lemma fold_mergeShardStep_notes:
  "fst (fold mergeShardStep sds (a, t, c, l)) =
     a @ concat (map (\<lambda>sd. orElse (notes' sd) []) sds)"
  by (induction sds arbitrary: a t c l) (auto simp: orElse_def split: option.splits)

lemma notes_buildShardData:
  "map (\<lambda>sd. orElse (notes' sd) []) (buildShardData data now shards) = shards"
  by (simp add: buildShardData_def orElse_def comp_def map_nth)

lemma dedupeLoop_distinct:
  "distinct (map note_id xs) \<Longrightarrow> note_id ` set xs \<inter> seen = {} \<Longrightarrow> dedupeLoop xs u seen = u @ xs"
proof (induction xs arbitrary: u seen)
  case Nil
  show ?case by simp
next
  case (Cons x xs)
  have a: "note_id x \<notin> seen" using Cons.prems(2) by auto
  have b: "note_id ` set xs \<inter> insert (note_id x) seen = {}"
    using Cons.prems by auto
  have c: "distinct (map note_id xs)" using Cons.prems(1) by simp
  show ?case using a Cons.IH [OF c b] by simp
qed

lemma notes_mergeShards:
  "notes' (mergeShards sds) = Some (dedupeLoop (concat (map (\<lambda>sd. orElse (notes' sd) []) sds)) [] {})"
proof -
  obtain a t c l where r: "fold mergeShardStep sds ([], [], [], None) = (a, t, c, l)"
    by (metis prod_cases4)
  from fold_mergeShardStep_notes [of sds "[]" "[]" "[]" None] r
  have "a = concat (map (\<lambda>sd. orElse (notes' sd) []) sds)" by simp
  then show ?thesis by (simp add: mergeShards_def r)
qed

lemma filter_distinct_key:
  "distinct (map f xs) \<Longrightarrow> x \<in> set xs \<Longrightarrow> filter (\<lambda>y. f x = f y) xs = [x]"
proof (induction xs)
  case Nil
  then show ?case by simp
next
  case (Cons y ys)
  have d: "distinct (map f ys)" and ny: "\<forall>r\<in>set ys. f r \<noteq> f y"
    using Cons.prems(1) by (auto simp: image_iff)
  show ?case
  proof (cases "x \<in> set ys")
    case True
    with ny have "f x \<noteq> f y" by blast
    with Cons.IH [OF d True] show ?thesis by simp
  next
    case False
    with Cons.prems(2) have xy: "x = y" by simp
    have "filter (\<lambda>r. f y = f r) ys = []"
      using ny by (auto simp: filter_empty_conv)
    with xy show ?thesis by simp
  qed
qed

lemma sort_key_perm_distinct:
  assumes "mset xs = mset ys" and "sorted (map f ys)" and "distinct (map f ys)"
  shows "sort_key f xs = ys"
proof (rule properties_for_sort_key)
  show "mset ys = mset xs" using assms(1) by simp
  show "sorted (map f ys)" by (rule assms(2))
  fix k assume k: "k \<in> set ys"
  have dx: "distinct (map f xs)"
  proof -
    have "mset (map f xs) = mset (map f ys)" using assms(1) by simp
    then show ?thesis using assms(3) by (metis mset_eq_imp_distinct_iff)
  qed
  have kx: "k \<in> set xs" using k assms(1) by (metis mset_eq_setD)
  show "filter (\<lambda>x. f k = f x) ys = filter (\<lambda>x. f k = f x) xs"
    by (simp add: filter_distinct_key [OF assms(3) k] filter_distinct_key [OF dx kx])
qed

lemma file_index_buildShardData:
  "map file_index (map shardFileOf (buildShardData data now shards)) = [0..<length shards]"
  by (simp add: buildShardData_def shardFileOf_def comp_def map_nth)

lemma recombineShardFiles_permutation:
  assumes "mset parsed = mset (buildShardData data now shards)"
  shows "recombineShardFiles parsed = mergeShards (buildShardData data now shards)"
proof -
  let ?ys = "map shardFileOf (buildShardData data now shards)"
  have "mset (map shardFileOf parsed) = mset ?ys" using assms by simp
  moreover have "sorted (map file_index ?ys)" "distinct (map file_index ?ys)"
    by (simp_all only: file_index_buildShardData sorted_upt distinct_upt)
  ultimately have "sort_key file_index (map shardFileOf parsed) = ?ys"
    by (rule sort_key_perm_distinct)
  then show ?thesis
    by (simp add: recombineShardFiles_def shardFileOf_def comp_def)
qed

lemma shardNotes_closeShards:
  "shardNotes sz b N =
    (let s = closeShards (shardLoop sz b (sortByRecency N) [] [] 0) in if length s > 0 then s else [[]])"
  by (simp add: shardNotes_def closeShards_def Let_def split: prod.splits)

lemma shardLoop_oversized:
  assumes big: "sz n > MAX_SHARD_SIZE"
  shows "csize = sum_list (map sz cur) \<Longrightarrow> (n \<in> set cur \<Longrightarrow> cur = [n]) \<Longrightarrow>
         filter (\<lambda>s. n \<in> set s) (closeShards (shardLoop sz b xs shards cur csize)) =
           filter (\<lambda>s. n \<in> set s) shards @ replicate (count_list (cur @ xs) n) [n]"
proof (induction xs arbitrary: shards cur csize)
  case Nil
  show ?case
  proof (cases "n \<in> set cur")
    case True
    with Nil(2) have "cur = [n]" by simp
    then show ?thesis by (simp add: closeShards_def)
  next
    case False
    then show ?thesis by (simp add: closeShards_def)
  qed
next
  case (Cons x xs)
  show ?case
  proof (cases "csize + sz x + b > MAX_SHARD_SIZE \<and> length cur > 0")
    case True
    have cur: "filter (\<lambda>s. n \<in> set s) [cur] = replicate (count_list cur n) [n]"
    proof (cases "n \<in> set cur")
      case True
      with Cons.prems(2) have "cur = [n]" by simp
      then show ?thesis by simp
    next
      case False
      then show ?thesis by simp
    qed
    have "filter (\<lambda>s. n \<in> set s) (closeShards (shardLoop sz b xs (shards @ [cur]) [x] (sz x))) =
          filter (\<lambda>s. n \<in> set s) (shards @ [cur]) @ replicate (count_list ([x] @ xs) n) [n]"
      by (rule Cons.IH) auto
    also have "\<dots> = filter (\<lambda>s. n \<in> set s) shards @ replicate (count_list (cur @ x # xs) n) [n]"
      using cur by (simp add: replicate_add)
    finally show ?thesis by (simp only: shardLoop.simps if_P [OF True])
  next
    case False
    have inv: "n \<in> set (cur @ [x]) \<Longrightarrow> cur @ [x] = [n]"
    proof (cases "cur = []")
      case True
      then show "n \<in> set (cur @ [x]) \<Longrightarrow> cur @ [x] = [n]" by simp
    next
      case ne: False
      with False have le: "csize + sz x + b \<le> MAX_SHARD_SIZE" by simp
      have "n \<notin> set cur"
      proof
        assume "n \<in> set cur"
        with Cons.prems(2) have "cur = [n]" by simp
        with Cons.prems(1) have "csize = sz n" by simp
        with le big show False by simp
      qed
      moreover have "n \<noteq> x" using le big by auto
      ultimately have "n \<notin> set (cur @ [x])" by simp
      then show "n \<in> set (cur @ [x]) \<Longrightarrow> cur @ [x] = [n]" by simp
    qed
    have "filter (\<lambda>s. n \<in> set s) (closeShards (shardLoop sz b xs shards (cur @ [x]) (csize + sz x))) =
          filter (\<lambda>s. n \<in> set s) shards @ replicate (count_list ((cur @ [x]) @ xs) n) [n]"
      by (rule Cons.IH) (use Cons.prems(1) inv in auto)
    then show ?thesis by (simp only: shardLoop.simps if_not_P [OF False] append_assoc append_Cons append_Nil)
  qed
qed

lemma count_list_sortByRecency: "count_list (sortByRecency N) n = count_list N n"
  by (metis count_mset mset_sortByRecency)

lemma fold_mergeShardStep_tags:
  "fst (snd (fold mergeShardStep sds (a, t, c, l))) = orElse (lastPresent (map customTags sds)) t"
  by (induction sds arbitrary: a t c l) (auto simp: orElse_def split: option.splits)

lemma fold_mergeShardStep_colors:
  "fst (snd (snd (fold mergeShardStep sds (a, t, c, l)))) = orElse (lastPresent (map tagColors sds)) c"
  by (induction sds arbitrary: a t c l) (auto simp: orElse_def split: option.splits)

lemma fold_mergeShardStep_time:
  "snd (snd (snd (fold mergeShardStep sds (a, t, c, l)))) = fold (\<lambda>sd. nextSyncTime (syncTime sd)) sds l"
  by (induction sds arbitrary: a t c l) auto

lemma mergeShards_fields:
  "customTags (mergeShards sds) = Some (orElse (lastPresent (map customTags sds)) [])"
  "tagColors (mergeShards sds) = Some (orElse (lastPresent (map tagColors sds)) [])"
  "syncTime (mergeShards sds) = fold (\<lambda>sd. nextSyncTime (syncTime sd)) sds None"
proof -
  obtain a t c l where r: "fold mergeShardStep sds ([], [], [], None) = (a, t, c, l)"
    by (metis prod_cases4)
  from fold_mergeShardStep_tags [of sds "[]" "[]" "[]" None] r
  show "customTags (mergeShards sds) = Some (orElse (lastPresent (map customTags sds)) [])"
    by (simp add: mergeShards_def)
  from fold_mergeShardStep_colors [of sds "[]" "[]" "[]" None] r
  show "tagColors (mergeShards sds) = Some (orElse (lastPresent (map tagColors sds)) [])"
    by (simp add: mergeShards_def)
  from fold_mergeShardStep_time [of sds "[]" "[]" "[]" None] r
  show "syncTime (mergeShards sds) = fold (\<lambda>sd. nextSyncTime (syncTime sd)) sds None"
    by (simp add: mergeShards_def)
qed

lemma nextSyncTime_max:
  "t \<noteq> [] \<Longrightarrow> m \<noteq> [] \<Longrightarrow> nextSyncTime (Some t) (Some m) = Some (max t m)"
  by (auto simp: nextSyncTime_def max_def)

lemma fold_nextSyncTime:
  "fold (\<lambda>sd. nextSyncTime (syncTime sd)) sds None =
     (if presentSyncTimes sds = [] then None else Some (Max (set (presentSyncTimes sds))))"
proof (induction sds rule: rev_induct)
  case Nil
  show ?case by (simp add: presentSyncTimes_def)
next
  case (snoc sd sds)
  have app: "presentSyncTimes (sds @ [sd]) =
      presentSyncTimes sds @ (case syncTime sd of None \<Rightarrow> [] | Some t \<Rightarrow> if t = [] then [] else [t])"
    by (simp add: presentSyncTimes_def split: option.splits)
  have ne: "[] \<notin> set (presentSyncTimes sds)"
    by (simp add: presentSyncTimes_def)
  show ?case
  proof (cases "syncTime sd")
    case None
    then show ?thesis using snoc by (simp add: app nextSyncTime_def)
  next
    case (Some t)
    show ?thesis
    proof (cases "t = []")
      case True
      then show ?thesis using snoc Some by (simp add: app nextSyncTime_def)
    next
      case False
      show ?thesis
      proof (cases "presentSyncTimes sds = []")
        case True
        then show ?thesis using snoc Some False by (simp add: app nextSyncTime_def)
      next
        case nonempty: False
        let ?m = "Max (set (presentSyncTimes sds))"
        have "?m \<in> set (presentSyncTimes sds)"
          using nonempty Max_in [of "set (presentSyncTimes sds)"] by simp
        with ne have mne: "?m \<noteq> []" by metis
        have mx: "Max (set (presentSyncTimes sds @ [t])) = max t ?m"
          using nonempty by simp
        have step: "nextSyncTime (Some t) (Some ?m) = Some (max t ?m)"
          using False mne by (rule nextSyncTime_max)
        have "fold (\<lambda>sd. nextSyncTime (syncTime sd)) (sds @ [sd]) None =
              nextSyncTime (Some t) (Some ?m)"
          using snoc nonempty Some by simp
        also have "\<dots> = Some (Max (set (presentSyncTimes (sds @ [sd]))))"
          unfolding step app Some using False mx by simp
        finally show ?thesis
          using False Some by (simp add: app)
      qed
    qed
  qed
qed

section \<open>The claims about note reconciliation\<close>

text \<open>
  C10. For all input collections, the output of \<^verbatim>\<open>mergeNotes\<close> contains each note id at
  most once, and every note of the output is one of the notes of the two inputs: the merge
  keeps whole notes and never builds a new one.
\<close>

theorem mergeNotes_unique_ids_and_drawn_from_inputs:
  "distinct (map note_id (mergeNotes localNotes cloudNotes))
   \<and> set (mergeNotes localNotes cloudNotes) \<subseteq> set localNotes \<union> set cloudNotes"
  using distinct_ids_mergeNotes values_mergeMap by (simp add: set_mergeNotes)

theorem mergeNotes_unique_ids_and_drawn_from_inputs_witness:
  "distinct (map note_id (mergeNotes [noteL1] [noteR1, noteR2]))
   \<and> set (mergeNotes [noteL1] [noteR1, noteR2]) \<subseteq> set [noteL1] \<union> set [noteR1, noteR2]"
  by (rule mergeNotes_unique_ids_and_drawn_from_inputs)

text \<open>
  C3. \<^verbatim>\<open>mergeNotes\<close> is idempotent: merging \<open>X\<close> with the merge of \<open>X\<close> and \<open>Y\<close> gives the
  notes of the merge of \<open>X\<close> and \<open>Y\<close>, as a set and also as a multiset (the order of the
  result is left aside).
\<close>

theorem mergeNotes_idempotent:
  "set (mergeNotes X (mergeNotes X Y)) = set (mergeNotes X Y)
   \<and> mset (mergeNotes X (mergeNotes X Y)) = mset (mergeNotes X Y)"
proof -
  have s: "set (mergeNotes X (mergeNotes X Y)) = set (mergeNotes X Y)"
    by (simp add: set_mergeNotes_ran mergeMap_idem)
  have "distinct (mergeNotes X (mergeNotes X Y))" and "distinct (mergeNotes X Y)"
    using distinct_ids_mergeNotes [of X "mergeNotes X Y"] distinct_ids_mergeNotes [of X Y]
    by (simp_all add: distinct_map)
  with s have "mset (mergeNotes X (mergeNotes X Y)) = mset (mergeNotes X Y)"
    by (simp add: set_eq_iff_mset_eq_distinct)
  with s show ?thesis by simp
qed

theorem mergeNotes_idempotent_witness:
  "set (mergeNotes [noteL1] (mergeNotes [noteL1] [noteR1, noteR2])) = {noteR2, noteL1}
   \<and> mergeNotes [noteL1] [noteR1, noteR2] = [noteR2, noteL1]"
proof -
  have m: "mergeNotes [noteL1] [noteR1, noteR2] = [noteR2, noteL1]"
    by (simp add: mergeNotes_def mergeMap_def addCloud_def addLocal_def mapGet_def
        sortByRecency_def sortBy_def compareRecency_def laterThan_def
        noteL1_def noteR1_def noteR2_def)
  from mergeNotes_idempotent [of "[noteL1]" "[noteR1, noteR2]"]
  have "set (mergeNotes [noteL1] (mergeNotes [noteL1] [noteR1, noteR2])) =
        set (mergeNotes [noteL1] [noteR1, noteR2])"
    by (rule conjunct1)
  with m show ?thesis by simp
qed

text \<open>
  What \<^verbatim>\<open>mergeNotes\<close> does on an id collision, for collections whose ids are unique: the
  result holds exactly one note of that id, the remote note when \<^verbatim>\<open>>\<close> holds between its
  \<^verbatim>\<open>timestamp\<close> and the local one (both present, the remote one strictly greater), and the
  local note in every other case.
\<close>

lemma mergeNotes_collision:
  assumes "distinct (map note_id localNotes)" and "distinct (map note_id cloudNotes)"
    and "l \<in> set localNotes" and "c \<in> set cloudNotes" and "note_id c = note_id l"
  shows "filter (\<lambda>n. note_id n = note_id l) (mergeNotes localNotes cloudNotes) =
           [if laterThan (timestamp c) (timestamp l) then c else l]"
  by (rule filter_mergeNotes) (rule mergeMap_collision [OF assms])

lemma mergeNotes_collision_with_timestamps:
  assumes "distinct (map note_id localNotes)" and "distinct (map note_id cloudNotes)"
    and "l \<in> set localNotes" and "c \<in> set cloudNotes" and "note_id c = note_id l"
    and "timestamp l = Some tLocal" and "timestamp c = Some tCloud"
  shows "filter (\<lambda>n. note_id n = note_id l) (mergeNotes localNotes cloudNotes) =
           [if tLocal < tCloud then c else l]"
  using mergeNotes_collision [OF assms(1-5)] assms(6,7) by (simp add: laterThan_def)

text \<open>
  C2. When the id of a remote note is the id of a local note, the result of \<^verbatim>\<open>mergeNotes\<close>
  should hold the one of the two that was written later. The code decides by the property
  \<^verbatim>\<open>timestamp\<close>, which the notes of the application do not have: their recency is
  \<open>updatedAt\<close>. On two such notes the comparison is false, and the local note is kept
  although the remote one was updated later.
\<close>

theorem mergeNotes_keeps_stale_local_note:
  "note_id noteNew = note_id noteOld
   \<and> updatedAt noteOld < updatedAt noteNew
   \<and> mergeNotes [noteOld] [noteNew] = [noteOld]"
  by (simp add: mergeNotes_def mergeMap_def addCloud_def addLocal_def mapGet_def
      sortByRecency_def sortBy_def laterThan_def noteOld_def noteNew_def)

section \<open>The claims about sharding and recombination\<close>

text \<open>
  C1. Let the note ids of \<open>N\<close> be unique. The shards of \<open>N\<close> are written as shard files by
  the upload; whatever the order in which the files come back, sorting them by index and
  combining them with \<^verbatim>\<open>mergeShards\<close> yields the notes of \<open>N\<close> in the order in which the
  upload sorted them: every note of \<open>N\<close> exactly once, none lost and none added.
\<close>

theorem shard_then_merge_roundtrip:
  assumes "distinct (map note_id N)"
    and "mset parsed = mset (buildShardData data now (shardNotes noteSize baseSize N))"
  shows "notes' (recombineShardFiles parsed) = Some (sortByRecency N)
         \<and> mset (sortByRecency N) = mset N"
proof -
  have "distinct (map note_id (sortByRecency N))"
    using assms(1) by (simp add: distinct_ids_sortByRecency)
  then have "dedupeLoop (sortByRecency N) [] {} = sortByRecency N"
    using dedupeLoop_distinct [of "sortByRecency N" "{}" "[]"] by simp
  then show ?thesis
    by (simp add: recombineShardFiles_permutation [OF assms(2)] notes_mergeShards
        notes_buildShardData concat_shardNotes mset_sortByRecency)
qed

theorem shard_then_merge_roundtrip_witness:
  "distinct (map note_id [noteL1, noteR2])
   \<and> shardNotes sizeEx 100 [noteL1, noteR2] = [[noteR2], [noteL1]]
   \<and> mset (rev (buildShardData emptySnapshot ''2024-01-01'' (shardNotes sizeEx 100 [noteL1, noteR2])))
       = mset (buildShardData emptySnapshot ''2024-01-01'' (shardNotes sizeEx 100 [noteL1, noteR2]))
   \<and> notes' (recombineShardFiles
         (rev (buildShardData emptySnapshot ''2024-01-01'' (shardNotes sizeEx 100 [noteL1, noteR2]))))
       = Some [noteR2, noteL1]"
proof -
  let ?B = "buildShardData emptySnapshot ''2024-01-01'' (shardNotes sizeEx 100 [noteL1, noteR2])"
  have h1: "distinct (map note_id [noteL1, noteR2])"
    by (simp add: noteL1_def noteR2_def)
  have h2: "mset (rev ?B) = mset ?B" by simp
  have sh: "shardNotes sizeEx 100 [noteL1, noteR2] = [[noteR2], [noteL1]]"
    by (simp add: shardNotes_def sortByRecency_def sortBy_def compareRecency_def
        sizeEx_def MAX_SHARD_SIZE_def noteL1_def noteR2_def)
  have so: "sortByRecency [noteL1, noteR2] = [noteR2, noteL1]"
    by (simp add: sortByRecency_def sortBy_def compareRecency_def noteL1_def noteR2_def)
  from shard_then_merge_roundtrip [OF h1 h2]
  have "notes' (recombineShardFiles (rev ?B)) = Some (sortByRecency [noteL1, noteR2])"
    by (rule conjunct1)
  with h1 h2 sh so show ?thesis by simp
qed

text \<open>
  C7. A note whose size alone exceeds the shard limit is never split and never shares a
  shard: the shards that hold it are singletons of it, one for every occurrence of the note
  in the input. A note that occurs once is therefore in exactly one shard, alone.
\<close>

theorem oversized_note_alone_in_one_shard:
  assumes "noteSize n > MAX_SHARD_SIZE"
  shows "filter (\<lambda>s. n \<in> set s) (shardNotes noteSize baseSize ns) =
           replicate (count_list ns n) [n]"
proof -
  let ?S = "closeShards (shardLoop noteSize baseSize (sortByRecency ns) [] [] 0)"
  have S: "filter (\<lambda>s. n \<in> set s) ?S = replicate (count_list ns n) [n]"
    using shardLoop_oversized [where sz = noteSize and n = n and csize = 0 and cur = "[]"
        and b = baseSize and xs = "sortByRecency ns" and shards = "[]"] assms
    by (simp add: count_list_sortByRecency)
  show ?thesis
  proof (cases "length ?S > 0")
    case True
    then show ?thesis using S by (simp add: shardNotes_closeShards Let_def)
  next
    case False
    then have "?S = []" by simp
    with S have "replicate (count_list ns n) [n] = []" by simp
    with False show ?thesis by (simp add: shardNotes_closeShards Let_def)
  qed
qed

theorem oversized_note_alone_in_one_shard_witness:
  "sizeEx noteR2 > MAX_SHARD_SIZE
   \<and> filter (\<lambda>s. noteR2 \<in> set s) (shardNotes sizeEx 100 [noteL1, noteR2]) = [[noteR2]]"
proof -
  have h: "sizeEx noteR2 > MAX_SHARD_SIZE"
    by (simp add: sizeEx_def noteR2_def MAX_SHARD_SIZE_def)
  have "count_list [noteL1, noteR2] noteR2 = 1"
    by (simp add: noteL1_def noteR2_def)
  with oversized_note_alone_in_one_shard
    [where noteSize = sizeEx and n = noteR2 and baseSize = 100 and ns = "[noteL1, noteR2]"] h
  show ?thesis by simp
qed

text \<open>
  C4, as stated, fails for the sync time: \<^verbatim>\<open>mergeShards\<close> keeps the greatest sync time it
  has seen, not the one of the last shard. Two shards, the first with the later time:
\<close>

theorem mergeShards_syncTime_not_last:
  "syncTime (mergeShards [shardOf (Some ''2024-01-02'') None, shardOf (Some ''2024-01-01'') None])
     = Some ''2024-01-02''
   \<and> syncTime (shardOf (Some ''2024-01-01'') None) = Some ''2024-01-01''"
  by (simp add: mergeShards_def shardOf_def nextSyncTime_def)

text \<open>
  C4, amended. For every sequence of shards, \<open>customTags\<close> and \<open>tagColors\<close> of the combined
  snapshot are the values of the last shard that carries the field (the empty collection
  when no shard does), and \<open>syncTime\<close> is the greatest sync time that a shard carries
  (absent when no shard carries one). A further shard in which a field is absent leaves the
  value adopted so far in place.
\<close>

theorem mergeShards_settings_fields:
  "customTags (mergeShards sds) = Some (orElse (lastPresent (map customTags sds)) [])
   \<and> tagColors (mergeShards sds) = Some (orElse (lastPresent (map tagColors sds)) [])
   \<and> syncTime (mergeShards sds) =
       (if presentSyncTimes sds = [] then None else Some (Max (set (presentSyncTimes sds))))
   \<and> customTags (mergeShards (sds @ [sd])) =
       (case customTags sd of None \<Rightarrow> customTags (mergeShards sds) | Some t \<Rightarrow> Some t)
   \<and> tagColors (mergeShards (sds @ [sd])) =
       (case tagColors sd of None \<Rightarrow> tagColors (mergeShards sds) | Some c \<Rightarrow> Some c)
   \<and> syncTime (mergeShards (sds @ [sd])) =
       (case syncTime sd of
          None \<Rightarrow> syncTime (mergeShards sds)
        | Some t \<Rightarrow> nextSyncTime (Some t) (syncTime (mergeShards sds)))"
proof -
  have "lastPresent (xs @ [x]) = (case x of None \<Rightarrow> lastPresent xs | Some v \<Rightarrow> Some v)"
    for x :: "'a option" and xs
    by (induction xs) (auto split: option.splits)
  note snoc = this
  have "nextSyncTime None l = l" for l
    by (simp add: nextSyncTime_def)
  then show ?thesis
    by (simp add: mergeShards_fields fold_nextSyncTime [symmetric] snoc orElse_def
        split: option.splits)
qed

theorem mergeShards_settings_fields_witness:
  "customTags (mergeShards [shardOf (Some ''2024-01-02'') (Some [tagA]), shardOf None None])
     = Some [tagA]
   \<and> syncTime (mergeShards [shardOf (Some ''2024-01-02'') (Some [tagA]), shardOf None None])
     = Some ''2024-01-02''"
  using mergeShards_settings_fields
    [of "[shardOf (Some ''2024-01-02'') (Some [tagA]), shardOf None None]"]
  by (simp add: shardOf_def orElse_def presentSyncTimes_def)

section \<open>Properties of the download and upload operations\<close>

lemma map_fst_allocate: "map fst (allocate k xs) = [k..<k + length xs]"
  by (simp add: allocate_def)

lemma map_snd_allocate: "map snd (allocate k xs) = xs"
  by (simp add: allocate_def)

lemma fold_setAdd_fresh:
  "distinct (map fst xs) \<Longrightarrow> fst ` set xs \<inter> fst ` set acc = {} \<Longrightarrow> fold setAdd xs acc = acc @ xs"
proof (induction xs arbitrary: acc)
  case Nil
  show ?case by simp
next
  case (Cons x xs)
  have fresh: "fst x \<notin> fst ` set acc" using Cons.prems(2) by auto
  have d: "distinct (map fst xs)" using Cons.prems(1) by simp
  have "fst x \<notin> fst ` set xs" using Cons.prems(1) by (auto simp: image_iff)
  then have i: "fst ` set xs \<inter> fst ` set (acc @ [x]) = {}"
    using Cons.prems(2) by auto
  show ?case
    using fresh Cons.IH [OF d i] by (simp add: setAdd_def)
qed

lemma mergeCustomTags_append: "mergeCustomTags localTags cloudTags = localTags @ cloudTags"
proof -
  let ?c = "allocate 0 cloudTags"
  let ?l = "allocate (length cloudTags) localTags"
  have "map fst (?l @ ?c) =
      [length cloudTags..<length cloudTags + length localTags] @ [0..<length cloudTags]"
    by (simp add: map_fst_allocate)
  moreover have "distinct \<dots>" by auto
  ultimately have "distinct (map fst (?l @ ?c))" by simp
  then have "newSet (?l @ ?c) = ?l @ ?c"
    unfolding newSet_def using fold_setAdd_fresh [of "?l @ ?c" "[]"] by simp
  then show ?thesis
    by (simp add: mergeCustomTags_def Let_def map_snd_allocate)
qed

lemma catchError_returns: "\<exists>r. fst (catchError out) = Inr r"
  by (cases out) (auto simp: catchError_def split: sum.splits exn.splits)

lemma snd_catchError: "snd (catchError out) = snd out"
  by (cases out) (auto simp: catchError_def split: sum.splits exn.splits)

text \<open>The store that a download leaves, up to the keys written after notes and tags.\<close>

lemma syncDown_store:
  assumes "getGist s (getResponse env) = Inr (Some cloudData)"
  shows "insight_notes (snd (syncDown env s)) =
           insight_notes (case notes' cloudData of
              None \<Rightarrow> s
            | Some cloudNotes \<Rightarrow> saveNotes env (mergeNotes (insight_notes s) cloudNotes) s)"
    and "insight_custom_tags (snd (syncDown env s)) =
           insight_custom_tags (case customTags cloudData of
              None \<Rightarrow> s
            | Some cloudTags \<Rightarrow>
                saveCustomTags env (mergeCustomTags (insight_custom_tags s) cloudTags) s)"
  using assms
  by (auto simp: syncDown_def syncDownBody_def snd_catchError Let_def
      saveNotes_def saveCustomTags_def setTagColors_def updateLastSyncTime_def
      split: option.splits)

lemma webdavSyncDown_store:
  assumes "davConnected s" and "\<not> btoaThrows env"
    and "davGetResponse env = Responded status (JsonValue data)" and "responseOk status"
  shows "insight_notes (snd (webdavSyncDown env s)) =
           insight_notes (case notes' data of None \<Rightarrow> s | Some ns \<Rightarrow> saveNotes env ns s)"
    and "insight_custom_tags (snd (webdavSyncDown env s)) =
           insight_custom_tags (case customTags data of
              None \<Rightarrow> s
            | Some ts \<Rightarrow> saveCustomTags env ts s)"
  using assms
  by (auto simp: webdavSyncDown_def webdavSyncDownBody_def snd_catchError Let_def
      saveNotes_def saveCustomTags_def setTagColors_def davUpdateLastSyncTime_def
      split: option.splits)

lemma legacySyncDown_store:
  assumes "legacyGetGist s (getResponse env) = Inr (Some data)"
  shows "insight_notes (snd (legacySyncDown env s)) =
           insight_notes (case notes' data of None \<Rightarrow> s | Some ns \<Rightarrow> saveNotes env ns s)"
    and "insight_custom_tags (snd (legacySyncDown env s)) =
           insight_custom_tags (case customTags data of
              None \<Rightarrow> s
            | Some ts \<Rightarrow> saveCustomTags env ts s)"
  using assms
  by (auto simp: legacySyncDown_def legacySyncDownBody_def snd_catchError Let_def
      saveNotes_def saveCustomTags_def updateLastSyncTime_def
      split: option.splits)

lemma getGist_example: "getGist storeEx (getResponse envEx) = Inr (Some cloudEx)"
  by (simp add: getGist_def storeEx_def envEx_def truthy_def responseOk_def gistEx_def
      shardFilesOf_def startsWith_def SHARD_PREFIX_def recombineShardFiles_def
      shardFileOf_def shardEx_def mergeShards_def nextSyncTime_def cloudEx_def
      noteR1_def noteR2_def)

lemma legacyGetGist_example:
  "legacyGetGist storeEx (getResponse envLegacyEx) = Inr (Some fileEx)"
  by (simp add: legacyGetGist_def storeEx_def envEx_def envLegacyEx_def truthy_def
      responseOk_def gistLegacyEx_def legacyFile_def shardEx_def fileEx_def
      Snapshot.truncate_def ShardData.defs Snapshot.defs)

lemma mergeNotes_example: "mergeNotes [noteL1] [noteR1, noteR2] = [noteR2, noteL1]"
  by (simp add: mergeNotes_def mergeMap_def addCloud_def addLocal_def mapGet_def
      sortByRecency_def sortBy_def compareRecency_def laterThan_def
      noteL1_def noteR1_def noteR2_def)

section \<open>The claims about download and upload\<close>

text \<open>
  C5, as stated, fails for the WebDAV variant (and for the single-file Gist variant): the
  remote notes replace the local ones. With one local note and another remote note, the
  download saves the remote note only, where the merge would keep both.
\<close>

theorem webdavSyncDown_replaces_local_notes:
  "insight_notes storeEx = [noteL1]
   \<and> insight_notes (snd (webdavSyncDown envEx storeEx)) = [noteR1, noteR2]
   \<and> mergeNotes [noteL1] [noteR1, noteR2] = [noteR2, noteL1]"
proof -
  have h: "davConnected storeEx" "\<not> btoaThrows envEx"
    "davGetResponse envEx = Responded 200 (JsonValue fileEx)" "responseOk 200"
    by (simp_all add: davConnected_def storeEx_def truthy_def responseOk_def envEx_def)
  have "insight_notes (snd (webdavSyncDown envEx storeEx)) = [noteR1, noteR2]"
    unfolding webdavSyncDown_store(1) [OF h]
    by (simp add: fileEx_def saveNotes_def envEx_def)
  then show ?thesis
    by (simp add: mergeNotes_example storeEx_def)
qed

text \<open>
  C5, amended. In the sharded Gist variant a download whose snapshot carries a notes array
  saves the merge of the local notes with the remote notes. In the WebDAV variant and in
  the single-file Gist variant a download whose snapshot carries a notes array saves the
  remote notes as they are, in place of the local collection. (In each case the store must
  accept the write.)
\<close>

theorem download_saves_merged_or_remote_notes:
  "(getGist s (getResponse env) = Inr (Some cloudData) \<and> notes' cloudData = Some cloudNotes
      \<and> \<not> quotaExceeded env ''insight_notes''
    \<longrightarrow> insight_notes (snd (syncDown env s)) = mergeNotes (insight_notes s) cloudNotes)
   \<and> (davConnected s \<and> \<not> btoaThrows env
      \<and> davGetResponse env = Responded status (JsonValue data) \<and> responseOk status
      \<and> notes' data = Some remoteNotes \<and> \<not> quotaExceeded env ''insight_notes''
    \<longrightarrow> insight_notes (snd (webdavSyncDown env s)) = remoteNotes)
   \<and> (legacyGetGist s (getResponse env) = Inr (Some data') \<and> notes' data' = Some remoteNotes'
      \<and> \<not> quotaExceeded env ''insight_notes''
    \<longrightarrow> insight_notes (snd (legacySyncDown env s)) = remoteNotes')"
  by (simp add: syncDown_store webdavSyncDown_store legacySyncDown_store saveNotes_def)

theorem download_saves_merged_or_remote_notes_witness:
  "getGist storeEx (getResponse envEx) = Inr (Some cloudEx)
   \<and> notes' cloudEx = Some [noteR1, noteR2]
   \<and> \<not> quotaExceeded envEx ''insight_notes''
   \<and> insight_notes (snd (syncDown envEx storeEx)) = [noteR2, noteL1]
   \<and> davConnected storeEx \<and> \<not> btoaThrows envEx
   \<and> davGetResponse envEx = Responded 200 (JsonValue fileEx) \<and> responseOk 200
   \<and> notes' fileEx = Some [noteR1, noteR2]
   \<and> insight_notes (snd (webdavSyncDown envEx storeEx)) = [noteR1, noteR2]
   \<and> legacyGetGist storeEx (getResponse envLegacyEx) = Inr (Some fileEx)
   \<and> \<not> quotaExceeded envLegacyEx ''insight_notes''
   \<and> insight_notes (snd (legacySyncDown envLegacyEx storeEx)) = [noteR1, noteR2]"
proof -
  have a: "getGist storeEx (getResponse envEx) = Inr (Some cloudEx)"
    by (rule getGist_example)
  have b: "notes' cloudEx = Some [noteR1, noteR2]" "notes' fileEx = Some [noteR1, noteR2]"
    by (simp_all add: cloudEx_def fileEx_def)
  have c: "\<not> quotaExceeded envEx ''insight_notes''"
    "\<not> quotaExceeded envLegacyEx ''insight_notes''" "\<not> btoaThrows envEx"
    "davGetResponse envEx = Responded 200 (JsonValue fileEx)"
    by (simp_all add: envEx_def envLegacyEx_def)
  have d: "davConnected storeEx" "responseOk 200" "insight_notes storeEx = [noteL1]"
    by (simp_all add: davConnected_def storeEx_def truthy_def responseOk_def)
  have e: "legacyGetGist storeEx (getResponse envLegacyEx) = Inr (Some fileEx)"
    by (rule legacyGetGist_example)
  from download_saves_merged_or_remote_notes
    [of storeEx envEx cloudEx "[noteR1, noteR2]" 200 fileEx "[noteR1, noteR2]"]
  have 1: "insight_notes (snd (syncDown envEx storeEx)) = [noteR2, noteL1]"
    and 2: "insight_notes (snd (webdavSyncDown envEx storeEx)) = [noteR1, noteR2]"
    using a b c d by (simp_all add: mergeNotes_example)
  from download_saves_merged_or_remote_notes
    [of storeEx envLegacyEx _ _ _ _ _ fileEx "[noteR1, noteR2]"]
  have 3: "insight_notes (snd (legacySyncDown envLegacyEx storeEx)) = [noteR1, noteR2]"
    using b c e by simp
  from a b c d e 1 2 3 show ?thesis by simp
qed




text \<open>
  What the sharded variant does with a tag that is defined on both sides: the set holds the
  two parsed objects apart, and the download saves the definition twice.
\<close>

lemma syncDown_saves_shared_tag_twice:
  "insight_custom_tags (snd (syncDown envEx (storeEx\<lparr>insight_custom_tags := [tagA]\<rparr>)))
     = [tagA, tagA]"
proof -
  have "getGist (storeEx\<lparr>insight_custom_tags := [tagA]\<rparr>) (getResponse envEx) =
        getGist storeEx (getResponse envEx)"
    by (simp add: getGist_def)
  then have g: "getGist (storeEx\<lparr>insight_custom_tags := [tagA]\<rparr>) (getResponse envEx) =
        Inr (Some cloudEx)"
    by (simp add: getGist_example)
  show ?thesis
    unfolding syncDown_store(2) [OF g]
    by (simp add: cloudEx_def envEx_def mergeCustomTags_append saveCustomTags_def)
qed

text \<open>
  C9. Every synchronisation operation of every variant returns a result record, with its
  \<open>success\<close> flag and its \<open>message\<close>, whatever the store holds and whatever the remote store
  and the network answer: none of them throws.
\<close>

theorem sync_operations_return_result:
  "(\<exists>r. fst (syncUp env s) = Inr r) \<and> (\<exists>r. fst (syncDown env s) = Inr r)
   \<and> (\<exists>r. fst (webdavSyncUp env s) = Inr r) \<and> (\<exists>r. fst (webdavSyncDown env s) = Inr r)
   \<and> (\<exists>r. fst (legacySyncUp env s) = Inr r) \<and> (\<exists>r. fst (legacySyncDown env s) = Inr r)"
  by (simp add: syncUp_def syncDown_def webdavSyncUp_def webdavSyncDown_def
      legacySyncUp_def legacySyncDown_def catchError_returns)

theorem sync_operations_return_result_witness:
  "fst (syncDown (envEx\<lparr>getResponse := Rejected ''Failed to fetch''\<rparr>) storeEx)
     = Inr (failure ''Failed to fetch'')
   \<and> (\<exists>r. fst (syncUp envEx storeEx) = Inr r)"
proof -
  have "fst (syncDown (envEx\<lparr>getResponse := Rejected ''Failed to fetch''\<rparr>) storeEx)
     = Inr (failure ''Failed to fetch'')"
    by (simp add: syncDown_def syncDownBody_def catchError_def getGist_def storeEx_def
        truthy_def envEx_def)
  with sync_operations_return_result [of envEx storeEx] show ?thesis by simp
qed

section \<open>Properties of the scheduler\<close>

lemma consistent_newManager: "consistent (newManager k a i t)"
  by (simp add: consistent_def newManager_def)

lemma consistent_stopAutoSync:
  "consistent s \<Longrightarrow> consistent (stopAutoSync s) \<and> autoSyncTimer (stopAutoSync s) = None"
  by (cases "activeTimers s")
    (auto simp: consistent_def stopAutoSync_def clearInterval_def split: option.splits)

lemma stopAutoSync_config:
  "auto_sync (stopAutoSync s) = auto_sync s"
  "sync_interval (stopAutoSync s) = sync_interval s"
  "github_token (stopAutoSync s) = github_token s"
  "timerCounter (stopAutoSync s) = timerCounter s"
  by (simp_all add: stopAutoSync_def clearInterval_def split: option.splits)

lemma activeTimers_stopAutoSync: "consistent s \<Longrightarrow> activeTimers (stopAutoSync s) = []"
  using consistent_stopAutoSync [of s] by (auto simp: consistent_def split: option.splits)

lemma startAutoSync_timers:
  assumes "consistent s"
  shows "activeTimers (startAutoSync js s) =
           (if auto_sync s = Some ''true'' \<and> isConnected s
            then [(Suc (timerCounter s),
                   milliseconds js (parseInt js (orElseString (sync_interval s) ''10'')))]
            else [])"
    and "autoSyncTimer (startAutoSync js s) =
           (if auto_sync s = Some ''true'' \<and> isConnected s
            then Some (Suc (timerCounter s)) else None)"
    and "timerCounter (startAutoSync js s) =
           (if auto_sync s = Some ''true'' \<and> isConnected s
            then Suc (timerCounter s) else timerCounter s)"
    and "auto_sync (startAutoSync js s) = auto_sync s"
    and "sync_interval (startAutoSync js s) = sync_interval s"
    and "github_token (startAutoSync js s) = github_token s"
  using activeTimers_stopAutoSync [OF assms] consistent_stopAutoSync [OF assms]
  by (simp_all add: startAutoSync_def Let_def setInterval_def stopAutoSync_config
      isConnected_def milliseconds_def)

lemma consistent_startAutoSync: "consistent s \<Longrightarrow> consistent (startAutoSync js s)"
  unfolding consistent_def [of "startAutoSync js s"] by (simp add: startAutoSync_timers)

lemma consistent_config_update:
  "consistent s \<Longrightarrow> consistent (s\<lparr>auto_sync := a\<rparr>)"
  "consistent s \<Longrightarrow> consistent (s\<lparr>sync_interval := i\<rparr>)"
  "consistent s \<Longrightarrow> consistent (s\<lparr>github_token := t\<rparr>)"
  by (simp_all add: consistent_def split: option.splits)

lemma consistent_exec:
  assumes "consistent s"
  shows "consistent (exec js c s)"
proof (cases c)
  case StartAutoSync
  then show ?thesis using assms by (simp add: consistent_startAutoSync)
next
  case StopAutoSync
  then show ?thesis using assms by (simp add: consistent_stopAutoSync)
next
  case (SetAutoSyncEnabled b)
  then show ?thesis
    using consistent_config_update(1) [OF assms]
    by (cases b)
      (simp_all add: setAutoSyncEnabled_def Let_def consistent_startAutoSync
        consistent_stopAutoSync)
next
  case (SetSyncInterval m)
  then show ?thesis
    using consistent_config_update(2) [OF assms]
    by (simp add: setSyncInterval_def Let_def consistent_startAutoSync)
next
  case (SaveToken t)
  then show ?thesis
    using consistent_config_update(3) [OF assms] by (simp add: saveToken_def)
next
  case ClearToken
  then show ?thesis
    using consistent_config_update(3) [OF assms] by (simp add: clearToken_def)
qed

lemma consistent_run: "consistent s \<Longrightarrow> consistent (run js calls s)"
  unfolding run_def by (induction calls arbitrary: s) (simp_all add: consistent_exec)

lemma consistent_timers:
  "consistent s \<Longrightarrow>
   length (activeTimers s) \<le> 1
   \<and> map fst (activeTimers s) = (case autoSyncTimer s of None \<Rightarrow> [] | Some i \<Rightarrow> [i])"
  by (cases "autoSyncTimer s") (auto simp: consistent_def dest: arg_cong [where f = length])

lemma setSyncInterval_state:
  assumes "consistent s"
  shows "consistent (setSyncInterval js m s)"
    and "auto_sync (setSyncInterval js m s) = auto_sync s"
    and "github_token (setSyncInterval js m s) = github_token s"
    and "sync_interval (setSyncInterval js m s) = Some (numberToString js m)"
  using consistent_config_update(2) [OF assms, of "Some (numberToString js m)"]
  by (simp_all add: setSyncInterval_def Let_def consistent_startAutoSync
      startAutoSync_timers)

lemma two_starts_timers:
  assumes "consistent s"
  shows "map snd (activeTimers
           (run js [SetSyncInterval m1, StartAutoSync, SetSyncInterval m2, StartAutoSync] s))
         = (if auto_sync s = Some ''true'' \<and> isConnected s
            then [milliseconds js (readBack js m2)] else [])"
proof -
  let ?a = "setSyncInterval js m1 s"
  have a: "consistent ?a" "auto_sync ?a = auto_sync s" "github_token ?a = github_token s"
    using setSyncInterval_state [OF assms] by simp_all
  let ?b = "startAutoSync js ?a"
  have b: "consistent ?b" "auto_sync ?b = auto_sync s" "github_token ?b = github_token s"
    using a by (simp_all add: consistent_startAutoSync startAutoSync_timers)
  let ?c = "setSyncInterval js m2 ?b"
  have c: "consistent ?c" "auto_sync ?c = auto_sync s" "github_token ?c = github_token s"
    "sync_interval ?c = Some (numberToString js m2)"
    using setSyncInterval_state [OF b(1)] b by simp_all
  have r: "run js [SetSyncInterval m1, StartAutoSync, SetSyncInterval m2, StartAutoSync] s =
        startAutoSync js ?c"
    by (simp add: run_def)
  show ?thesis
    unfolding r using c by (simp add: startAutoSync_timers isConnected_def readBack_def)
qed

lemma restart_cancels_old_timer:
  assumes "consistent s" and "autoSyncTimer s = Some old"
  shows "old \<notin> fst ` set (activeTimers (startAutoSync js s))"
  using assms by (auto simp: startAutoSync_timers consistent_def)

section \<open>The claim about the scheduler\<close>

text \<open>
  C8, as the code has it. In every state that a new manager reaches by any sequence of
  calls, at most one auto-sync timer is active, and it is the one that the field
  \<^verbatim>\<open>autoSyncTimer\<close> names. Starting while a timer is running cancels that timer: it is not
  among the active timers afterwards. Starting with one interval and then with another
  leaves exactly one active timer when auto-sync is enabled and the manager is connected,
  and no timer otherwise. The delay of that timer is the one of the second interval as
  \<^verbatim>\<open>parseInt\<close> reads it back from the string that was stored for it; when the second
  interval is read back as itself, this is the second interval in milliseconds.
\<close>

theorem scheduler_has_at_most_one_timer:
  "(let s = run js calls (newManager counter autoSync interval token);
        s2 = run js [SetSyncInterval m1, StartAutoSync, SetSyncInterval m2, StartAutoSync] s
    in
      length (activeTimers s) \<le> 1
      \<and> map fst (activeTimers s) = (case autoSyncTimer s of None \<Rightarrow> [] | Some i \<Rightarrow> [i])
      \<and> (case autoSyncTimer s of
           None \<Rightarrow> True
         | Some old \<Rightarrow> old \<notin> fst ` set (activeTimers (startAutoSync js s)))
      \<and> length (activeTimers s2) \<le> 1
      \<and> map snd (activeTimers s2)
          = (if auto_sync s = Some ''true'' \<and> isConnected s
             then [milliseconds js (readBack js m2)] else [])
      \<and> (auto_sync s = Some ''true'' \<and> isConnected s \<and> readBack js m2 = m2 \<longrightarrow>
           map snd (activeTimers s2)
           = [multiply js (multiply js m2 (number js 60)) (number js 1000)]))"
proof -
  let ?s = "run js calls (newManager counter autoSync interval token)"
  let ?s2 = "run js [SetSyncInterval m1, StartAutoSync, SetSyncInterval m2, StartAutoSync] ?s"
  have c: "consistent ?s"
    by (rule consistent_run) (rule consistent_newManager)
  have c2: "consistent ?s2"
    by (rule consistent_run) (rule c)
  have "case autoSyncTimer ?s of
          None \<Rightarrow> True
        | Some old \<Rightarrow> old \<notin> fst ` set (activeTimers (startAutoSync js ?s))"
    using restart_cancels_old_timer [OF c] by (simp split: option.splits)
  then show ?thesis
    using consistent_timers [OF c] consistent_timers [OF c2] two_starts_timers [OF c]
    by (simp add: Let_def milliseconds_def)
qed

theorem scheduler_has_at_most_one_timer_witness:
  "auto_sync (run naturals [SetAutoSyncEnabled True] (newManager 0 None None (Some ''token'')))
     = Some ''true''
   \<and> isConnected
       (run naturals [SetAutoSyncEnabled True] (newManager 0 None None (Some ''token'')))
   \<and> readBack naturals (Some 15) = Some 15
   \<and> activeTimers
       (run naturals [SetAutoSyncEnabled True] (newManager 0 None None (Some ''token'')))
     = [(1, Some 600000)]
   \<and> map snd (activeTimers
        (run naturals
          [SetSyncInterval (Some 5), StartAutoSync, SetSyncInterval (Some 15), StartAutoSync]
          (run naturals [SetAutoSyncEnabled True] (newManager 0 None None (Some ''token'')))))
     = [Some 900000]"
proof -
  let ?s = "run naturals [SetAutoSyncEnabled True] (newManager 0 None None (Some ''token''))"
  have p: "parseInt naturals ''10'' = Some 10"
    by (simp add: naturals_def leadingDigits_def digitValue_def)
  have s: "?s = \<lparr>autoSyncTimer = Some 1, activeTimers = [(1, Some 600000)], timerCounter = 1,
      auto_sync = Some ''true'', sync_interval = None, github_token = Some ''token''\<rparr>"
    by (simp add: run_def setAutoSyncEnabled_def startAutoSync_def stopAutoSync_def
        newManager_def isConnected_def truthy_def setInterval_def Let_def orElseString_def p)
      (simp add: naturals_def)
  have h: "auto_sync ?s = Some ''true''" "isConnected ?s"
    "activeTimers ?s = [(1, Some 600000)]"
    unfolding s by (simp_all add: isConnected_def truthy_def)
  have rb: "readBack naturals (Some 15) = Some 15"
    by (simp add: readBack_def naturals_def orElseString_def showNat.simps leadingDigits_def
        digitValue_def)
  from scheduler_has_at_most_one_timer
    [of naturals "[SetAutoSyncEnabled True]" 0 None None "Some ''token''" "Some 5" "Some 15"]
  have "map snd (activeTimers
        (run naturals
          [SetSyncInterval (Some 5), StartAutoSync, SetSyncInterval (Some 15), StartAutoSync]
          ?s))
     = [multiply naturals (multiply naturals (Some 15) (number naturals 60))
          (number naturals 1000)]"
    using h rb by (simp add: Let_def milliseconds_def)
  then have "map snd (activeTimers
        (run naturals
          [SetSyncInterval (Some 5), StartAutoSync, SetSyncInterval (Some 15), StartAutoSync]
          ?s))
     = [Some 900000]"
    by (simp add: naturals_def)
  with h rb show ?thesis by simp
qed

theorem two_starts_leave_no_timer_when_auto_sync_is_off:
  "activeTimers
     (run naturals
        [SetSyncInterval (Some 5), StartAutoSync, SetSyncInterval (Some 15), StartAutoSync]
        (newManager 0 None None (Some ''token'')))
   = []"
  by (simp add: run_def setSyncInterval_def startAutoSync_def stopAutoSync_def
      newManager_def Let_def)

end
